theory Spec2Isabelle
  imports Main "HOL-Library.Word" "HOL-Library.Multiset" "HOL-Library.List_Lexorder"
    "HOL-Library.Char_ord"
begin

section \<open>Go strings\<close>

text \<open>
  A Go string is a byte sequence; \<open>==\<close> is byte-wise equality and \<open><\<close> (used by
  \<open>sort.Strings\<close>) is the byte-wise lexicographic order, which is the order of
  \<^typ>\<open>char list\<close> here.

  \<open>strings.ToLower\<close> is modelled on the ASCII letters. The source only compares its
  result with the ASCII texts \<open>x-\<close> and \<open>default\<close>, and no rune outside ASCII
  lower-cases to one of their letters, so both tests agree with Go's.
\<close>

definition ToLower_char :: "char \<Rightarrow> char" where
  "ToLower_char c =
     (let n = (of_char c :: nat) in if 65 \<le> n \<and> n \<le> 90 then char_of (n + 32) else c)"

definition ToLower :: "string \<Rightarrow> string" where
  "ToLower s = map ToLower_char s"

definition HasPrefix :: "string \<Rightarrow> string \<Rightarrow> bool" where
  "HasPrefix s pre = (take (length pre) s = pre)"

fun Join :: "string list \<Rightarrow> string \<Rightarrow> string" where
  "Join [] sep = []"
| "Join [x] sep = x"
| "Join (x # y # ys) sep = x @ sep @ Join (y # ys) sep"

text \<open>The verb \<open>%d\<close> of \<open>fmt\<close>: a decimal numeral, with a sign when negative.\<close>

definition digit_char :: "nat \<Rightarrow> char" where
  "digit_char d = char_of (48 + d)"

fun nat_dec :: "nat \<Rightarrow> string" where
  "nat_dec n = (if n < 10 then [digit_char n] else nat_dec (n div 10) @ [digit_char (n mod 10)])"

declare nat_dec.simps [simp del]

definition Itoa :: "int \<Rightarrow> string" where
  "Itoa i = (if i < 0 then CHR ''-'' # nat_dec (nat (- i)) else nat_dec (nat i))"

text \<open>The verb \<open>%x\<close> of \<open>fmt\<close> on a \<open>[32]byte\<close>: 64 lower-case hexadecimal digits.\<close>

definition hex_char :: "nat \<Rightarrow> char" where
  "hex_char d = (if d < 10 then char_of (48 + d) else char_of (87 + d))"

definition hex_digest :: "256 word \<Rightarrow> string" where
  "hex_digest w = map (\<lambda>i. hex_char (unat (drop_bit (4 * (63 - i)) w) mod 16)) [0..<64]"

section \<open>Document nodes and position-tracked references\<close>

text \<open>
  \<open>yaml.Node\<close>, with the fields the two builders read. A mapping node keeps its
  entries as a flat list: key, value, key, value, ...
\<close>

datatype kind = DocumentNode | SequenceNode | MappingNode | ScalarNode | AliasNode

datatype node =
  Node (Kind: kind) (Value: string) (Content: "node list") (Line: int) (Column: int)

text \<open>
  \<open>low.KeyReference[string]\<close>, \<open>low.ValueReference[T]\<close> and \<open>low.NodeReference[T]\<close>,
  with the fields the struct literals of the source set. A node pointer is a
  \<^typ>\<open>node option\<close>, \<open>None\<close> being \<open>nil\<close>; so is the pointer to a child object.
\<close>

record key_ref =
  kr_Value :: string
  kr_KeyNode :: "node option"

record 'v value_ref =
  vr_Value :: 'v
  vr_ValueNode :: "node option"

record 'c node_ref =
  nr_Value :: "'c option"
  nr_ValueNode :: "node option"
  nr_KeyNode :: "node option"

section \<open>The ordered map\<close>

text \<open>
  Modelled from the spec: the package \<open>orderedmap\<close> is not among the sources. Section
  4.1 gives its contract: forward iteration in insertion order; \<open>set\<close> overwrites the
  value of a present key in place and appends an absent one; \<open>delete\<close> removes the
  entry and keeps the order of the others. Section 4.2 gives key equality: two
  \<open>KeyReference\<close>s are equal when their decoded values are, the node taking no part.
  The map is the list of its entries in iteration order; a \<open>nil\<close> map iterates like
  the empty one.
\<close>

type_synonym 'c omap = "(key_ref \<times> 'c option value_ref) list"

fun om_Set :: "key_ref \<Rightarrow> 'v \<Rightarrow> (key_ref \<times> 'v) list \<Rightarrow> (key_ref \<times> 'v) list" where
  "om_Set k v [] = [(k, v)]"
| "om_Set k v ((k', v') # m) =
     (if kr_Value k' = kr_Value k then (k', v) # m else (k', v') # om_Set k v m)"

fun om_Delete :: "key_ref \<Rightarrow> (key_ref \<times> 'v) list \<Rightarrow> (key_ref \<times> 'v) list" where
  "om_Delete k [] = []"
| "om_Delete k ((k', v') # m) =
     (if kr_Value k' = kr_Value k then m else (k', v') # om_Delete k m)"

definition om_keys :: "(key_ref \<times> 'v) list \<Rightarrow> string list" where
  "om_keys m = map (\<lambda>kv. kr_Value (fst kv)) m"

section \<open>The built objects\<close>

text \<open>
  The structs \<open>Responses\<close> (package v2) and \<open>Paths\<close> (package v3). The child types
  \<open>Response\<close> and \<open>PathItem\<close> are the type variable \<open>'c\<close>, the decoded value of an
  extension (\<open>any\<close>) is \<open>'x\<close>. The native Go map \<open>Extensions\<close> is the list of its
  entries; the order in which a \<open>range\<close> loop visits them is chosen anew at every
  loop and is an argument of the functions that iterate.
\<close>

datatype reference = EmptyReference

type_synonym 'x extensions = "(key_ref \<times> 'x value_ref) list"

record ('c, 'x) Responses =
  r_Codes :: "'c omap"
  r_Default :: "'c node_ref"
  r_Extensions :: "'x extensions"

record ('c, 'x) Paths =
  p_PathItems :: "'c omap"
  p_Extensions :: "'x extensions"
  p_Reference :: "reference option"

section \<open>Lookup accessors\<close>

text \<open>\<open>Paths.FindPath\<close>: the loop over the pairs, leaving at the first match.\<close>

fun FindPath_loop :: "'c omap \<Rightarrow> string \<Rightarrow> 'c option value_ref option" where
  "FindPath_loop [] path = None"
| "FindPath_loop (pair # rest) path =
     (if kr_Value (fst pair) = path then Some (snd pair) else FindPath_loop rest path)"

definition FindPath :: "('c, 'x) Paths \<Rightarrow> string \<Rightarrow> 'c option value_ref option" where
  "FindPath p path = FindPath_loop (p_PathItems p) path"

text \<open>\<open>Paths.FindPathAndKey\<close>: the same loop, returning the key as well.\<close>

fun FindPathAndKey_loop :: "'c omap \<Rightarrow> string \<Rightarrow> key_ref option \<times> 'c option value_ref option" where
  "FindPathAndKey_loop [] path = (None, None)"
| "FindPathAndKey_loop (pair # rest) path =
     (if kr_Value (fst pair) = path then (Some (fst pair), Some (snd pair))
      else FindPathAndKey_loop rest path)"

definition FindPathAndKey ::
    "('c, 'x) Paths \<Rightarrow> string \<Rightarrow> key_ref option \<times> 'c option value_ref option" where
  "FindPathAndKey p path = FindPathAndKey_loop (p_PathItems p) path"

text \<open>
  Modelled from the spec: \<open>low.FindItemInOrderedMap\<close>, the body of
  \<open>Responses.FindResponseByCode\<close>, is not among the sources. By sections 4.2 and 4.5
  a lookup is a linear scan by key, and keys are compared by string equality of
  their decoded values.
\<close>

fun FindItemInOrderedMap :: "string \<Rightarrow> 'c omap \<Rightarrow> 'c option value_ref option" where
  "FindItemInOrderedMap item [] = None"
| "FindItemInOrderedMap item (pair # rest) =
     (if kr_Value (fst pair) = item then Some (snd pair) else FindItemInOrderedMap item rest)"

definition FindResponseByCode ::
    "('c, 'x) Responses \<Rightarrow> string \<Rightarrow> 'c option value_ref option" where
  "FindResponseByCode r code = FindItemInOrderedMap code (r_Codes r)"

definition GetExtensions :: "('c, 'x) Paths \<Rightarrow> 'x extensions" where
  "GetExtensions p = p_Extensions p"

definition Responses_GetExtensions :: "('c, 'x) Responses \<Rightarrow> 'x extensions" where
  "Responses_GetExtensions r = r_Extensions r"

section \<open>External collaborators\<close>

text \<open>
  The helpers of the packages \<open>utils\<close>, \<open>low\<close> and \<open>index\<close> that the two builders call,
  the \<open>Build\<close> of the child type and the SHA-256 of the Go library are not among the
  sources. The builders take them as the fields of one record:

  \<^item> \<open>NodeAlias\<close>, \<open>CheckForMergeNodes\<close> (the node as the in-place rewriting leaves it),
    \<open>IsNodeMap\<close>, \<open>IsNodeRefValue\<close> (its first result), \<open>ExtractExtensions\<close>;
  \<^item> \<open>ExtractMapNoLookup\<close>: the map it returns (\<open>None\<close> for \<open>nil\<close>) and its error;
  \<^item> \<open>LocateRefNode\<close>: the node (\<open>None\<close> for \<open>nil\<close>) and the error (\<open>None\<close> for \<open>nil\<close>)
    that \<open>low.LocateRefNode(pNode, idx)\<close> returns;
  \<^item> \<open>AllowCircularReferenceResolving\<close>: the policy flag of the index;
  \<^item> \<open>HasLogger\<close>: the test \<open>idx != nil && idx.GetLogger() != nil\<close>;
  \<^item> \<open>BuildChild\<close>: \<open>new(PathItem)\<close>, \<open>low.BuildModel\<close> and the child's \<open>Build\<close> on the key
    node and the value node: the child as they leave it, and the error of \<open>Build\<close>;
  \<^item> \<open>GenerateHashString\<close>, \<open>Sprint\<close>, \<open>Sum256\<close>, and \<open>IsEmpty\<close> of a \<open>NodeReference\<close>.
\<close>

record ('c, 'x) env =
  NodeAlias :: "node \<Rightarrow> node"
  CheckForMergeNodes :: "node \<Rightarrow> node"
  IsNodeMap :: "node \<Rightarrow> bool"
  IsNodeRefValue :: "node \<Rightarrow> bool"
  ExtractExtensions :: "node \<Rightarrow> 'x extensions"
  ExtractMapNoLookup :: "node \<Rightarrow> 'c omap option \<times> string option"
  LocateRefNode :: "node \<Rightarrow> node option \<times> string option"
  AllowCircularReferenceResolving :: bool
  HasLogger :: bool
  BuildChild :: "node option \<Rightarrow> node \<Rightarrow> 'c \<times> string option"
  GenerateHashString :: "'c option \<Rightarrow> string"
  Sprint :: "'x \<Rightarrow> string"
  Sum256 :: "string \<Rightarrow> 256 word"
  IsEmpty :: "'c node_ref \<Rightarrow> bool"

text \<open>
  Modelled from the spec: the constant \<open>DefaultLabel\<close> of package v2 is not among the
  sources; section 8 names the reserved key \<open>default\<close>.
\<close>

definition DefaultLabel :: string where
  "DefaultLabel = ''default''"

section \<open>Responses.Build\<close>

text \<open>\<open>Responses.getDefault\<close>: the first pair whose lower-cased key is the label.\<close>

fun getDefault_loop :: "'c omap \<Rightarrow> 'c node_ref option" where
  "getDefault_loop [] = None"
| "getDefault_loop (pair # rest) =
     (if ToLower (kr_Value (fst pair)) = DefaultLabel
      then Some \<lparr>nr_Value = vr_Value (snd pair),
                 nr_ValueNode = vr_ValueNode (snd pair),
                 nr_KeyNode = kr_KeyNode (fst pair)\<rparr>
      else getDefault_loop rest)"

definition getDefault :: "('c, 'x) Responses \<Rightarrow> 'c node_ref option" where
  "getDefault r = getDefault_loop (r_Codes r)"

text \<open>
  \<open>Responses.deleteCode\<close>: the first pair whose key is the code, compared with \<open>==\<close>,
  gives the key to delete; without one the map is left alone.
\<close>

fun deleteCode_loop :: "'c omap \<Rightarrow> string \<Rightarrow> key_ref option" where
  "deleteCode_loop [] code = None"
| "deleteCode_loop (pair # rest) code =
     (if kr_Value (fst pair) = code then Some (fst pair) else deleteCode_loop rest code)"

definition deleteCode :: "('c, 'x) Responses \<Rightarrow> string \<Rightarrow> ('c, 'x) Responses" where
  "deleteCode r code =
     (case deleteCode_loop (r_Codes r) code of
        None \<Rightarrow> r
      | Some key \<Rightarrow> r\<lparr>r_Codes := om_Delete key (r_Codes r)\<rparr>)"

text \<open>
  \<open>Responses.Build\<close> changes its receiver and returns an error: the result is the
  receiver as \<open>Build\<close> leaves it and the error, \<open>None\<close> for \<open>nil\<close>. The root is a
  node: a call with the \<open>nil\<close> pointer as root is not described.
\<close>

definition Responses_Build ::
    "('c, 'x) env \<Rightarrow> ('c, 'x) Responses \<Rightarrow> node \<Rightarrow> ('c, 'x) Responses \<times> string option" where
  "Responses_Build E r root0 =
     (let root = CheckForMergeNodes E (NodeAlias E root0);
          r1 = r\<lparr>r_Extensions := ExtractExtensions E root\<rparr>
      in if IsNodeMap E root then
           (case ExtractMapNoLookup E root of
              (codes, Some err) \<Rightarrow> (r1, Some err)
            | (codes, None) \<Rightarrow>
                (let r2 = (case codes of None \<Rightarrow> r1 | Some c \<Rightarrow> r1\<lparr>r_Codes := c\<rparr>)
                 in case getDefault r2 of
                      None \<Rightarrow> (r2, None)
                    | Some def \<Rightarrow> (deleteCode (r2\<lparr>r_Default := def\<rparr>) DefaultLabel, None)))
         else (r1, Some (''responses build failed: vn node is not a map! line ''
                          @ Itoa (Line root) @ '', col '' @ Itoa (Column root))))"

section \<open>Paths.Build\<close>

record buildInput =
  currentNode :: "node option"
  pathNode :: node

record 'c buildResult =
  br_key :: key_ref
  br_value :: "'c option value_ref"

text \<open>
  The input goroutine: one pass over \<open>root.Content\<close> with the index \<open>i\<close>, the flag
  \<open>skip\<close> and the variable \<open>currentNode\<close> (\<open>nil\<close> at first); the result is the sequence
  of inputs it offers to the pipeline. (The channel \<open>done\<close> is closed only after the
  pipeline has closed its output, so leaving the loop at \<open>done\<close> withholds inputs
  from a pipeline that has already ended.)
\<close>

fun producer_loop :: "nat \<Rightarrow> bool \<Rightarrow> node option \<Rightarrow> node list \<Rightarrow> buildInput list" where
  "producer_loop i skip cur [] = []"
| "producer_loop i skip cur (pNode # rest) =
     (if HasPrefix (ToLower (Value pNode)) ''x-'' then producer_loop (i + 1) True cur rest
      else if skip then producer_loop (i + 1) False cur rest
      else if i mod 2 = 0 then producer_loop (i + 1) False (Some pNode) rest
      else \<lparr>currentNode = cur, pathNode = pNode\<rparr> # producer_loop (i + 1) False cur rest)"

definition producer :: "node \<Rightarrow> buildInput list" where
  "producer root = producer_loop 0 False None (Content root)"

text \<open>
  What ends a job or the whole \<open>Build\<close> early: an error value, or a run-time panic
  (an index out of range, a \<open>nil\<close> dereference).
\<close>

datatype failure = Error string | Panic

text \<open>
  The translate function handed to the pipeline. Its result is the pair of Go results
  (\<open>Inl\<close> for a non-nil error) and the lines it writes to the logger.
\<close>

definition resolve :: "('c, 'x) env \<Rightarrow> node \<Rightarrow> failure + node" where
  "resolve E pNode =
     (if IsNodeRefValue E pNode then
        (case LocateRefNode E pNode of
           (Some r, Some err) \<Rightarrow>
             (if \<not> AllowCircularReferenceResolving E
              then Inl (Error (''path item build failed: '' @ err))
              else Inr r)
         | (Some r, None) \<Rightarrow> Inr r
         | (None, err) \<Rightarrow>
             (case Content pNode of
                k # t # rest \<Rightarrow>
                  Inl (Error (''path item build failed: cannot find reference: '' @ Value t
                        @ '' at line '' @ Itoa (Line t) @ '', col '' @ Itoa (Column t)))
              | _ \<Rightarrow> Inl Panic))
      else Inr pNode)"

definition worker ::
    "('c, 'x) env \<Rightarrow> buildInput \<Rightarrow> (failure + 'c buildResult) \<times> string list" where
  "worker E input =
     (case resolve E (pathNode input) of
        Inl f \<Rightarrow> (Inl f, [])
      | Inr pNode \<Rightarrow>
          (case BuildChild E (currentNode input) pNode of
             (path, err) \<Rightarrow>
               (let logged =
                      (case err of
                         None \<Rightarrow> []
                       | Some e \<Rightarrow>
                           if HasLogger E
                           then [''error building path item '' @ [CHR 0x27] @ e @ [CHR 0x27]]
                           else [])
                in case currentNode input of
                     None \<Rightarrow> (Inl Panic, logged)
                   | Some cNode \<Rightarrow>
                       (Inr \<lparr>br_key = \<lparr>kr_Value = Value cNode, kr_KeyNode = Some cNode\<rparr>,
                             br_value = \<lparr>vr_Value = Some path, vr_ValueNode = Some pNode\<rparr>\<rparr>,
                        logged))))"

text \<open>
  Modelled from the spec: \<open>datamodel.TranslatePipeline\<close> is not among the sources. By
  sections 4.5 and 5 the jobs complete in an order that need not be the order of
  submission, the results reach the output in completion order, and the first
  failure met ends the pipeline and is its result. The completion order is the
  argument \<open>sched\<close>: \<open>arrange sched xs\<close> is a permutation of \<open>xs\<close>, and every
  permutation is \<open>arrange sched xs\<close> for some \<open>sched\<close>. The result is the list of
  outputs, the log lines of the jobs that ran, and the failure returned.
\<close>

fun arrange :: "nat list \<Rightarrow> 'a list \<Rightarrow> 'a list" where
  "arrange sched [] = []"
| "arrange [] (x # xs) = x # xs"
| "arrange (k # sched) (x # xs) =
     (let i = k mod length (x # xs)
      in (x # xs) ! i # arrange sched (take i (x # xs) @ drop (Suc i) (x # xs)))"

fun run_jobs ::
    "('i \<Rightarrow> (failure + 'o) \<times> string list) \<Rightarrow> 'i list \<Rightarrow> 'o list \<times> string list \<times> failure option"
where
  "run_jobs fn [] = ([], [], None)"
| "run_jobs fn (x # xs) =
     (case fn x of
        (Inl f, logged) \<Rightarrow> ([], logged, Some f)
      | (Inr y, logged) \<Rightarrow>
          (case run_jobs fn xs of (ys, logs, err) \<Rightarrow> (y # ys, logged @ logs, err)))"

definition TranslatePipeline ::
    "nat list \<Rightarrow> 'i list \<Rightarrow> ('i \<Rightarrow> (failure + 'o) \<times> string list)
      \<Rightarrow> 'o list \<times> string list \<times> failure option" where
  "TranslatePipeline sched ins fn = run_jobs fn (arrange sched ins)"

text \<open>The output goroutine: every result is stored with \<open>pathsMap.Set\<close>, in arrival order.\<close>

definition consumer :: "'c buildResult list \<Rightarrow> 'c omap" where
  "consumer outs = fold (\<lambda>result pathsMap. om_Set (br_key result) (br_value result) pathsMap) outs []"

text \<open>
  \<open>Paths.Build\<close>: the receiver as \<open>Build\<close> leaves it, the lines logged, and the error
  returned (\<open>None\<close> for \<open>nil\<close>). A panic in a job ends the program; the receiver is
  then shown as it was when the pipeline started.
\<close>

definition Paths_Build ::
    "('c, 'x) env \<Rightarrow> nat list \<Rightarrow> ('c, 'x) Paths \<Rightarrow> node
      \<Rightarrow> ('c, 'x) Paths \<times> string list \<times> failure option" where
  "Paths_Build E sched p root0 =
     (let root = CheckForMergeNodes E (NodeAlias E root0);
          p1 = p\<lparr>p_Reference := Some EmptyReference, p_Extensions := ExtractExtensions E root\<rparr>
      in case TranslatePipeline sched (producer root) (worker E) of
           (outs, logs, Some err) \<Rightarrow> (p1, logs, Some err)
         | (outs, logs, None) \<Rightarrow> (p1\<lparr>p_PathItems := consumer outs\<rparr>, logs, None))"

section \<open>Hash\<close>

text \<open>
  \<open>Responses.Hash\<close>. The first loop fills \<open>keys\<close> and the Go map \<open>cmap\<close> (a later pair
  with the same key text overwrites an earlier one; a key that is absent reads as the
  \<open>nil\<close> child). \<open>ext_order\<close> is the order in which the \<open>range\<close> loop visits the native
  map \<open>Extensions\<close>; each entry is read through its own key.
\<close>

definition cmap_of :: "(key_ref \<times> 'v value_ref) list \<Rightarrow> string \<Rightarrow> 'v option" where
  "cmap_of m = fold (\<lambda>pair cm. cm(kr_Value (fst pair) \<mapsto> vr_Value (snd pair))) m Map.empty"

definition cmap_get :: "(string \<Rightarrow> 'c option option) \<Rightarrow> string \<Rightarrow> 'c option" where
  "cmap_get cm k = (case cm k of None \<Rightarrow> None | Some v \<Rightarrow> v)"

definition child_lines :: "('c, 'x) env \<Rightarrow> 'c omap \<Rightarrow> string list" where
  "child_lines E m =
     map (\<lambda>k. k @ ''-'' @ GenerateHashString E (cmap_get (cmap_of m) k)) (sort (om_keys m))"

definition extension_lines :: "('c, 'x) env \<Rightarrow> nat list \<Rightarrow> 'x extensions \<Rightarrow> string list" where
  "extension_lines E ext_order exts =
     sort (map (\<lambda>entry. kr_Value (fst entry) @ ''-''
                  @ hex_digest (Sum256 E (Sprint E (vr_Value (snd entry)))))
             (arrange ext_order exts))"

definition Responses_Hash :: "('c, 'x) env \<Rightarrow> nat list \<Rightarrow> ('c, 'x) Responses \<Rightarrow> 256 word" where
  "Responses_Hash E ext_order r =
     (let f = child_lines E (r_Codes r);
          f = (if \<not> IsEmpty E (r_Default r)
               then f @ [GenerateHashString E (nr_Value (r_Default r))] else f);
          f = f @ extension_lines E ext_order (r_Extensions r)
      in Sum256 E (Join f ''|''))"

text \<open>
  \<open>Paths.Hash\<close>: the same folding, without a default entry. Its Go map keeps the
  whole value reference of a pair and the loop reads the \<open>Value\<close> of it: the same child.
\<close>

definition Paths_Hash :: "('c, 'x) env \<Rightarrow> nat list \<Rightarrow> ('c, 'x) Paths \<Rightarrow> 256 word" where
  "Paths_Hash E ext_order p =
     (let f = child_lines E (p_PathItems p);
          f = f @ extension_lines E ext_order (p_Extensions p)
      in Sum256 E (Join f ''|''))"

section \<open>Helpers of package low, from the spec\<close>

text \<open>The entries of a mapping node: the flat list of children, two by two.\<close>

fun pairs_of :: "node list \<Rightarrow> (node \<times> node) list" where
  "pairs_of (k # v # rest) = (k, v) # pairs_of rest"
| "pairs_of rest = []"

text \<open>
  Modelled from the spec: \<open>low.ExtractExtensions\<close> is not among the sources. Section 4.3:
  every key that begins, case-sensitively, with \<open>x-\<close>, paired with its decoded value;
  \<open>decode\<close> is the decoding of a value node.
\<close>

definition spec_ExtractExtensions :: "(node \<Rightarrow> 'x) \<Rightarrow> node \<Rightarrow> 'x extensions" where
  "spec_ExtractExtensions decode root =
     map (\<lambda>kv. (\<lparr>kr_Value = Value (fst kv), kr_KeyNode = Some (fst kv)\<rparr>,
                \<lparr>vr_Value = decode (snd kv), vr_ValueNode = Some (snd kv)\<rparr>))
       (filter (\<lambda>kv. HasPrefix (Value (fst kv)) ''x-'') (pairs_of (Content root)))"

text \<open>
  Modelled from the spec: \<open>low.ExtractMapNoLookup\<close> is not among the sources. Sections
  4.7 and 3: the entries of the mapping node that are not extensions are decoded in
  document order into an ordered map of built children, keyed by the text of the key
  node; the first child whose \<open>Build\<close> fails ends the decoding with its error.
\<close>

fun extract_entries ::
    "(node option \<Rightarrow> node \<Rightarrow> 'c \<times> string option) \<Rightarrow> (node \<times> node) list \<Rightarrow> 'c omap
      \<Rightarrow> 'c omap option \<times> string option" where
  "extract_entries build [] m = (Some m, None)"
| "extract_entries build (kv # rest) m =
     (if HasPrefix (Value (fst kv)) ''x-'' then extract_entries build rest m
      else (case build (Some (fst kv)) (snd kv) of
              (child, Some err) \<Rightarrow> (None, Some err)
            | (child, None) \<Rightarrow>
                extract_entries build rest
                  (om_Set \<lparr>kr_Value = Value (fst kv), kr_KeyNode = Some (fst kv)\<rparr>
                          \<lparr>vr_Value = Some child, vr_ValueNode = Some (snd kv)\<rparr> m)))"

definition spec_ExtractMapNoLookup ::
    "(node option \<Rightarrow> node \<Rightarrow> 'c \<times> string option) \<Rightarrow> node \<Rightarrow> 'c omap option \<times> string option" where
  "spec_ExtractMapNoLookup build root = extract_entries build (pairs_of (Content root)) []"

section \<open>A sample environment\<close>

text \<open>
  A small instance of the collaborators, used to run the builders on sample
  documents: no aliases and no merge keys; a mapping is a node of kind
  \<open>MappingNode\<close>; a reference is a mapping with the single key \<open>$ref\<close>; the index
  knows the target \<open>#/ok\<close> and reports \<open>#/loop\<close> as found but circular; a child is
  its value node, and its \<open>Build\<close> fails on a scalar with the text \<open>bad\<close>.
\<close>

definition scalar :: "string \<Rightarrow> int \<Rightarrow> int \<Rightarrow> node" where
  "scalar s l c = Node ScalarNode s [] l c"

definition mapping :: "node list \<Rightarrow> int \<Rightarrow> int \<Rightarrow> node" where
  "mapping ns l c = Node MappingNode [] ns l c"

definition sample_is_ref :: "node \<Rightarrow> bool" where
  "sample_is_ref n =
     (case Content n of [k, t] \<Rightarrow> Kind n = MappingNode \<and> Value k = ''$ref'' | _ \<Rightarrow> False)"

definition sample_locate :: "node \<Rightarrow> node option \<times> string option" where
  "sample_locate n =
     (case Content n of
        [k, t] \<Rightarrow>
          (if Value t = ''#/ok'' then (Some (mapping [] 100 1), None)
           else if Value t = ''#/loop''
           then (Some (mapping [] 200 1), Some ''circular reference: #/loop'')
           else (None, Some ''not found''))
      | _ \<Rightarrow> (None, Some ''not a reference''))"

definition sample_build :: "node option \<Rightarrow> node \<Rightarrow> node \<times> string option" where
  "sample_build k v = (v, if Value v = ''bad'' then Some ''child build failed'' else None)"

definition sample_env :: "bool \<Rightarrow> bool \<Rightarrow> (node, string) env" where
  "sample_env allow logger =
     \<lparr>NodeAlias = (\<lambda>n. n),
      CheckForMergeNodes = (\<lambda>n. n),
      IsNodeMap = (\<lambda>n. Kind n = MappingNode),
      IsNodeRefValue = sample_is_ref,
      ExtractExtensions = spec_ExtractExtensions Value,
      ExtractMapNoLookup = spec_ExtractMapNoLookup sample_build,
      LocateRefNode = sample_locate,
      AllowCircularReferenceResolving = allow,
      HasLogger = logger,
      BuildChild = sample_build,
      GenerateHashString = (\<lambda>c. case c of None \<Rightarrow> [] | Some n \<Rightarrow> Value n),
      Sprint = (\<lambda>s. s),
      Sum256 = (\<lambda>s. of_nat (length s)),
      IsEmpty = (\<lambda>d. nr_KeyNode d = None \<and> nr_ValueNode d = None)\<rparr>"

definition empty_Responses :: "('c, 'x) Responses" where
  "empty_Responses =
     \<lparr>r_Codes = [],
      r_Default = \<lparr>nr_Value = None, nr_ValueNode = None, nr_KeyNode = None\<rparr>,
      r_Extensions = []\<rparr>"

definition empty_Paths :: "('c, 'x) Paths" where
  "empty_Paths = \<lparr>p_PathItems = [], p_Extensions = [], p_Reference = None\<rparr>"

text \<open>Two built objects with two children each.\<close>

definition sample_key :: "string \<Rightarrow> key_ref" where
  "sample_key s = \<lparr>kr_Value = s, kr_KeyNode = Some (scalar s 1 1)\<rparr>"

definition sample_ref :: "int \<Rightarrow> node option value_ref" where
  "sample_ref l = \<lparr>vr_Value = Some (mapping [] l 3), vr_ValueNode = Some (mapping [] l 3)\<rparr>"

definition sample_paths :: "(node, string) Paths" where
  "sample_paths =
     empty_Paths\<lparr>p_PathItems := [(sample_key ''/users'', sample_ref 1),
                                 (sample_key ''/pets'', sample_ref 2)]\<rparr>"

definition sample_responses :: "(node, string) Responses" where
  "sample_responses =
     empty_Responses\<lparr>r_Codes := [(sample_key ''200'', sample_ref 3),
                                 (sample_key ''2XX'', sample_ref 4)]\<rparr>"

text \<open>Sample documents. A reference to \<open>t\<close> is the mapping \<open>{$ref: t}\<close>.\<close>

definition ref_to :: "string \<Rightarrow> int \<Rightarrow> node" where
  "ref_to t l = mapping [scalar ''$ref'' l 7, scalar t l 13] l 5"

definition doc_value_prefix :: node where
  "doc_value_prefix =
     mapping [scalar ''/a'' 1 1, scalar ''x-foo'' 1 5, scalar ''/b'' 2 1, mapping [] 2 5] 1 1"

definition doc_Default :: node where
  "doc_Default = mapping [scalar ''Default'' 1 1, mapping [] 1 10] 1 1"

definition doc_bad_child :: node where
  "doc_bad_child =
     mapping [scalar ''/a'' 1 1, scalar ''bad'' 1 5, scalar ''/b'' 2 1, mapping [] 2 5] 1 1"

definition doc_bad_response :: node where
  "doc_bad_response =
     mapping [scalar ''200'' 1 1, scalar ''bad'' 1 5, scalar ''404'' 2 1, mapping [] 2 5] 1 1"

definition doc_missing_ref :: node where
  "doc_missing_ref = mapping [scalar ''/a'' 1 1, ref_to ''#/nope'' 1] 1 1"

definition doc_extension_ref :: node where
  "doc_extension_ref = mapping [scalar ''x-a'' 1 1, ref_to ''#/nope'' 1] 1 1"

definition doc_loop :: node where
  "doc_loop = mapping [scalar ''/a'' 1 1, ref_to ''#/loop'' 1] 1 1"

definition doc_loop_and_missing :: node where
  "doc_loop_and_missing =
     mapping [scalar ''/a'' 1 1, ref_to ''#/loop'' 1, scalar ''/b'' 2 1, ref_to ''#/nope'' 2] 1 1"

text \<open>Two extension entries, for the sample objects.\<close>

definition sample_exts :: "string extensions" where
  "sample_exts =
     [(sample_key ''x-one'', \<lparr>vr_Value = ''1'', vr_ValueNode = Some (scalar ''1'' 8 8)\<rparr>),
      (sample_key ''x-two'', \<lparr>vr_Value = ''2'', vr_ValueNode = Some (scalar ''2'' 9 8)\<rparr>)]"

text \<open>
  The decoded content of an entry of a child map or of the extension map: the text of
  the key and the decoded value, without the nodes they came from.
\<close>

definition decoded :: "key_ref \<times> 'v value_ref \<Rightarrow> string \<times> 'v" where
  "decoded entry = (kr_Value (fst entry), vr_Value (snd entry))"


section \<open>Properties of the lookups\<close>

lemma FindPath_loop_find:
  "FindPath_loop m q = map_option snd (find (\<lambda>kv. kr_Value (fst kv) = q) m)"
  by (induction m) auto

lemma FindItemInOrderedMap_find:
  "FindItemInOrderedMap q m = map_option snd (find (\<lambda>kv. kr_Value (fst kv) = q) m)"
  by (induction m) auto

lemma find_first_split:
  "find P m = Some kv \<Longrightarrow> \<exists>xs ys. m = xs @ kv # ys \<and> P kv \<and> (\<forall>x\<in>set xs. \<not> P x)"
proof (induction m)
  case Nil
  then show ?case by simp
next
  case (Cons a m)
  show ?case
  proof (cases "P a")
    case True
    with Cons.prems have "a = kv" by simp
    with True have "a # m = [] @ kv # m \<and> P kv \<and> (\<forall>x\<in>set []. \<not> P x)" by simp
    then show ?thesis by blast
  next
    case False
    with Cons.prems have "find P m = Some kv" by simp
    from Cons.IH [OF this] obtain xs ys
      where "m = xs @ kv # ys" "P kv" "\<forall>x\<in>set xs. \<not> P x" by blast
    with False have "a # m = (a # xs) @ kv # ys \<and> P kv \<and> (\<forall>x\<in>set (a # xs). \<not> P x)"
      by simp
    then show ?thesis by blast
  qed
qed

lemma scan_first_match:
  assumes "map_option snd (find (\<lambda>kv. kr_Value (fst kv) = q) m) = Some v"
  shows "\<exists>xs k ys. m = xs @ (k, v) # ys \<and> kr_Value k = q \<and> q \<notin> set (om_keys xs)"
proof -
  from assms obtain kv where f: "find (\<lambda>kv. kr_Value (fst kv) = q) m = Some kv" and v: "snd kv = v"
    by (auto simp: map_option_case split: option.splits)
  from find_first_split [OF f] obtain xs ys
    where "m = xs @ kv # ys" "kr_Value (fst kv) = q" "\<forall>x\<in>set xs. kr_Value (fst x) \<noteq> q"
    by blast
  with v have "m = xs @ (fst kv, v) # ys \<and> kr_Value (fst kv) = q \<and> q \<notin> set (om_keys xs)"
    by (auto simp: om_keys_def)
  then show ?thesis by blast
qed

lemma scan_none:
  "(map_option snd (find (\<lambda>kv. kr_Value (fst kv) = q) m) = None) = (q \<notin> set (om_keys m))"
  by (force simp: om_keys_def find_None_iff)

text \<open>
  C10. \<open>Paths.FindPath\<close> and \<open>Responses.FindResponseByCode\<close> compare keys by string
  equality: the result is the value reference of the first entry, in insertion
  order, whose decoded key equals the query, and none exactly when no decoded key
  equals the query; in particular a query that equals a key only up to letter case
  finds nothing.
\<close>

theorem find_by_key_exact:
  "(FindPath p q = None \<longleftrightarrow> q \<notin> set (om_keys (p_PathItems p))) \<and>
   (\<forall>v. FindPath p q = Some v \<longrightarrow>
      (\<exists>xs k ys. p_PathItems p = xs @ (k, v) # ys \<and> kr_Value k = q \<and> q \<notin> set (om_keys xs))) \<and>
   (FindResponseByCode r c = None \<longleftrightarrow> c \<notin> set (om_keys (r_Codes r))) \<and>
   (\<forall>v. FindResponseByCode r c = Some v \<longrightarrow>
      (\<exists>xs k ys. r_Codes r = xs @ (k, v) # ys \<and> kr_Value k = c \<and> c \<notin> set (om_keys xs))) \<and>
   (ToLower q \<in> set (map ToLower (om_keys (p_PathItems p))) \<and> q \<notin> set (om_keys (p_PathItems p))
      \<longrightarrow> FindPath p q = None) \<and>
   (ToLower c \<in> set (map ToLower (om_keys (r_Codes r))) \<and> c \<notin> set (om_keys (r_Codes r))
      \<longrightarrow> FindResponseByCode r c = None)"
proof -
  have a: "FindPath p q = None \<longleftrightarrow> q \<notin> set (om_keys (p_PathItems p))"
    unfolding FindPath_def FindPath_loop_find by (rule scan_none)
  have b: "FindResponseByCode r c = None \<longleftrightarrow> c \<notin> set (om_keys (r_Codes r))"
    unfolding FindResponseByCode_def FindItemInOrderedMap_find by (rule scan_none)
  have c: "\<forall>v. FindPath p q = Some v \<longrightarrow>
      (\<exists>xs k ys. p_PathItems p = xs @ (k, v) # ys \<and> kr_Value k = q \<and> q \<notin> set (om_keys xs))"
    unfolding FindPath_def FindPath_loop_find by (intro allI impI) (rule scan_first_match)
  have d: "\<forall>v. FindResponseByCode r c = Some v \<longrightarrow>
      (\<exists>xs k ys. r_Codes r = xs @ (k, v) # ys \<and> kr_Value k = c \<and> c \<notin> set (om_keys xs))"
    unfolding FindResponseByCode_def FindItemInOrderedMap_find
    by (intro allI impI) (rule scan_first_match)
  from a b c d show ?thesis by blast
qed

theorem find_by_key_exact_witness:
  "FindPath sample_paths ''/PETS'' = None \<and>
   FindResponseByCode sample_responses ''2xx'' = None \<and>
   (\<exists>xs k ys. p_PathItems sample_paths = xs @ (k, sample_ref 2) # ys \<and> kr_Value k = ''/pets''
      \<and> ''/pets'' \<notin> set (om_keys xs)) \<and>
   (\<exists>xs k ys. r_Codes sample_responses = xs @ (k, sample_ref 4) # ys \<and> kr_Value k = ''2XX''
      \<and> ''2XX'' \<notin> set (om_keys xs))"
proof -
  have hp: "ToLower ''/PETS'' \<in> set (map ToLower (om_keys (p_PathItems sample_paths)))
      \<and> ''/PETS'' \<notin> set (om_keys (p_PathItems sample_paths))"
    by code_simp
  have hr: "ToLower ''2xx'' \<in> set (map ToLower (om_keys (r_Codes sample_responses)))
      \<and> ''2xx'' \<notin> set (om_keys (r_Codes sample_responses))"
    by code_simp
  have fp: "FindPath sample_paths ''/pets'' = Some (sample_ref 2)"
    by (simp add: FindPath_def sample_paths_def empty_Paths_def sample_key_def)
  have fr: "FindResponseByCode sample_responses ''2XX'' = Some (sample_ref 4)"
    by (simp add: FindResponseByCode_def sample_responses_def empty_Responses_def sample_key_def)
  from hp hr find_by_key_exact [of sample_paths "''/PETS''" sample_responses "''2xx''"]
  have n: "FindPath sample_paths ''/PETS'' = None \<and> FindResponseByCode sample_responses ''2xx'' = None"
    by blast
  from fp fr find_by_key_exact [of sample_paths "''/pets''" sample_responses "''2XX''"]
  have m: "(\<exists>xs k ys. p_PathItems sample_paths = xs @ (k, sample_ref 2) # ys \<and> kr_Value k = ''/pets''
      \<and> ''/pets'' \<notin> set (om_keys xs)) \<and>
   (\<exists>xs k ys. r_Codes sample_responses = xs @ (k, sample_ref 4) # ys \<and> kr_Value k = ''2XX''
      \<and> ''2XX'' \<notin> set (om_keys xs))"
    by blast
  from n m show ?thesis by blast
qed

section \<open>Properties of the pipeline\<close>

lemma mset_arrange: "mset (arrange sched xs) = mset xs"
proof (induction sched xs rule: arrange.induct)
  case (1 sched)
  then show ?case by simp
next
  case (2 x xs)
  then show ?case by simp
next
  case (3 k sched x xs)
  let ?ys = "x # xs"
  let ?i = "k mod length ?ys"
  have lt: "?i < length ?ys" by simp
  have "mset (arrange (k # sched) ?ys) = {#?ys ! ?i#} + mset (take ?i ?ys @ drop (Suc ?i) ?ys)"
    using "3.IH" [of ?i] by (simp add: Let_def del: mset_append)
  also have "\<dots> = mset (take ?i ?ys @ ?ys ! ?i # drop (Suc ?i) ?ys)" by simp
  also have "\<dots> = mset ?ys" using id_take_nth_drop [OF lt] by simp
  finally show ?case .
qed

lemma set_arrange: "set (arrange sched xs) = set xs"
  using mset_arrange [of sched xs] by (rule mset_eq_setD)

lemma run_jobs_all_ok:
  "\<forall>x\<in>set xs. \<not> isl (fst (fn x)) \<Longrightarrow>
     run_jobs fn xs = (map (\<lambda>x. projr (fst (fn x))) xs, concat (map (\<lambda>x. snd (fn x)) xs), None)"
proof (induction xs)
  case Nil
  then show ?case by simp
next
  case (Cons a xs)
  then obtain y l where a: "fn a = (Inr y, l)"
    by (cases "fn a"; cases "fst (fn a)") auto
  with Cons show ?case by simp
qed

lemma run_jobs_fails:
  "x \<in> set xs \<Longrightarrow> isl (fst (fn x)) \<Longrightarrow>
     \<exists>f y. snd (snd (run_jobs fn xs)) = Some f \<and> y \<in> set xs \<and> fst (fn y) = Inl f"
proof (induction xs)
  case Nil
  then show ?case by simp
next
  case (Cons a xs)
  show ?case
  proof (cases "fn a")
    case (Pair res l)
    show ?thesis
    proof (cases res)
      case (Inl f)
      with Pair have "snd (snd (run_jobs fn (a # xs))) = Some f \<and> a \<in> set (a # xs) \<and> fst (fn a) = Inl f"
        by simp
      then show ?thesis by blast
    next
      case (Inr y)
      with Pair Cons.prems have "x \<in> set xs" by auto
      from Cons.IH [OF this Cons.prems(2)] obtain f z
        where "snd (snd (run_jobs fn xs)) = Some f" "z \<in> set xs" "fst (fn z) = Inl f" by blast
      with Pair Inr have "snd (snd (run_jobs fn (a # xs))) = Some f \<and> z \<in> set (a # xs) \<and> fst (fn z) = Inl f"
        by (cases "run_jobs fn xs") simp
      then show ?thesis by blast
    qed
  qed
qed

lemma run_jobs_failure_origin:
  "snd (snd (run_jobs fn xs)) = Some f \<Longrightarrow> \<exists>y\<in>set xs. fst (fn y) = Inl f"
proof (induction xs)
  case Nil
  then show ?case by simp
next
  case (Cons a xs)
  show ?case
  proof (cases "fn a")
    case (Pair res l)
    show ?thesis
    proof (cases res)
      case (Inl g)
      with Pair Cons.prems show ?thesis by simp
    next
      case (Inr y)
      with Pair Cons.prems have "snd (snd (run_jobs fn xs)) = Some f"
        by (cases "run_jobs fn xs") simp
      from Cons.IH [OF this] show ?thesis by auto
    qed
  qed
qed

lemma om_keys_om_Set:
  "om_keys (om_Set k v m) =
     (if kr_Value k \<in> set (om_keys m) then om_keys m else om_keys m @ [kr_Value k])"
proof (induction m)
  case Nil
  then show ?case by (simp add: om_keys_def)
next
  case (Cons a m)
  then show ?case by (cases a) (auto simp: om_keys_def)
qed

lemma set_om_keys_om_Set: "set (om_keys (om_Set k v m)) = insert (kr_Value k) (set (om_keys m))"
  by (auto simp: om_keys_om_Set)

lemma distinct_om_Set: "distinct (om_keys m) \<Longrightarrow> distinct (om_keys (om_Set k v m))"
  by (simp add: om_keys_om_Set)

lemma fold_om_Set_keys:
  "set (om_keys (fold (\<lambda>r m. om_Set (br_key r) (br_value r) m) outs m0))
     = set (om_keys m0) \<union> (\<lambda>r. kr_Value (br_key r)) ` set outs"
  by (induction outs arbitrary: m0) (auto simp: set_om_keys_om_Set)

lemma consumer_keys: "set (om_keys (consumer outs)) = (\<lambda>r. kr_Value (br_key r)) ` set outs"
  unfolding consumer_def using fold_om_Set_keys [of outs "[]"] by (simp add: om_keys_def)

lemma fold_om_Set_distinct:
  "distinct (om_keys m0) \<Longrightarrow> distinct (om_keys (fold (\<lambda>r m. om_Set (br_key r) (br_value r) m) outs m0))"
  by (induction outs arbitrary: m0) (auto simp: distinct_om_Set)

lemma consumer_distinct: "distinct (om_keys (consumer outs))"
  unfolding consumer_def using fold_om_Set_distinct [of "[]" outs] by (simp add: om_keys_def)

lemma producer_loop_feeds:
  "\<not> HasPrefix (ToLower (Value k)) ''x-'' \<Longrightarrow> \<not> HasPrefix (ToLower (Value v)) ''x-'' \<Longrightarrow>
   even (i + length xs) \<Longrightarrow>
   \<exists>cur'. \<lparr>currentNode = cur', pathNode = v\<rparr> \<in> set (producer_loop i skip cur (xs @ k # v # ys))"
proof (induction xs arbitrary: i skip cur)
  case Nil
  then show ?case by (cases skip) auto
next
  case (Cons a xs)
  from Cons.prems(3) have ev: "even (Suc i + length xs)" by simp
  have "\<And>s c. \<exists>cur'. \<lparr>currentNode = cur', pathNode = v\<rparr> \<in> set (producer_loop (Suc i) s c (xs @ k # v # ys))"
    using Cons.IH [OF Cons.prems(1) Cons.prems(2) ev] by blast
  then show ?case by auto
qed

lemma worker_resolve_fail: "resolve E (pathNode j) = Inl f \<Longrightarrow> worker E j = (Inl f, [])"
  by (simp add: worker_def)

lemma worker_no_key:
  "resolve E (pathNode j) = Inr pn \<Longrightarrow> currentNode j = None \<Longrightarrow> fst (worker E j) = Inl Panic"
  by (simp add: worker_def Let_def split: prod.splits)

lemma worker_ok:
  "resolve E (pathNode j) = Inr pn \<Longrightarrow> currentNode j = Some c \<Longrightarrow>
   worker E j =
     (Inr \<lparr>br_key = \<lparr>kr_Value = Value c, kr_KeyNode = Some c\<rparr>,
           br_value = \<lparr>vr_Value = Some (fst (BuildChild E (Some c) pn)), vr_ValueNode = Some pn\<rparr>\<rparr>,
      case snd (BuildChild E (Some c) pn) of
        None \<Rightarrow> []
      | Some e \<Rightarrow> if HasLogger E
                  then [''error building path item '' @ [CHR 0x27] @ e @ [CHR 0x27]] else [])"
  by (simp add: worker_def Let_def split: prod.splits)

lemma worker_key:
  "fst (worker E j) = Inr res \<Longrightarrow> \<exists>c. currentNode j = Some c \<and> kr_Value (br_key res) = Value c"
  by (auto simp: worker_def Let_def split: prod.splits sum.splits option.splits)

lemma worker_key_present:
  "\<not> isl (fst (worker E j)) \<Longrightarrow> currentNode j = Some c \<Longrightarrow>
     kr_Value (br_key (projr (fst (worker E j)))) = Value c"
  by (auto simp: worker_def Let_def split: prod.splits sum.splits option.splits)

lemma Paths_Build_ok:
  assumes "\<forall>j\<in>set (producer (CheckForMergeNodes E (NodeAlias E root))). \<not> isl (fst (worker E j))"
  shows "Paths_Build E sched p root =
     (p\<lparr>p_Reference := Some EmptyReference,
        p_Extensions := ExtractExtensions E (CheckForMergeNodes E (NodeAlias E root)),
        p_PathItems := consumer (map (\<lambda>j. projr (fst (worker E j)))
                         (arrange sched (producer (CheckForMergeNodes E (NodeAlias E root)))))\<rparr>,
      concat (map (\<lambda>j. snd (worker E j))
                (arrange sched (producer (CheckForMergeNodes E (NodeAlias E root))))),
      None)"
proof -
  let ?ins = "arrange sched (producer (CheckForMergeNodes E (NodeAlias E root)))"
  from assms have "\<forall>j\<in>set ?ins. \<not> isl (fst (worker E j))" by (simp add: set_arrange)
  from run_jobs_all_ok [OF this] show ?thesis
    by (simp add: Paths_Build_def Let_def TranslatePipeline_def)
qed

lemma Paths_Build_fails:
  assumes "j \<in> set (producer (CheckForMergeNodes E (NodeAlias E root)))" "isl (fst (worker E j))"
  shows "\<exists>f. snd (snd (Paths_Build E sched p root)) = Some f"
proof -
  let ?ins = "arrange sched (producer (CheckForMergeNodes E (NodeAlias E root)))"
  from assms have "j \<in> set ?ins" by (simp add: set_arrange)
  from run_jobs_fails [of j ?ins "worker E", OF this assms(2)] obtain f where "snd (snd (run_jobs (worker E) ?ins)) = Some f"
    by blast
  then have "snd (snd (Paths_Build E sched p root)) = Some f"
    by (cases "run_jobs (worker E) ?ins") (simp add: Paths_Build_def Let_def TranslatePipeline_def)
  then show ?thesis by blast
qed

lemma Paths_Build_failure_origin:
  assumes "snd (snd (Paths_Build E sched p root)) = Some f"
  shows "\<exists>y\<in>set (producer (CheckForMergeNodes E (NodeAlias E root))). fst (worker E y) = Inl f"
proof -
  let ?ins = "arrange sched (producer (CheckForMergeNodes E (NodeAlias E root)))"
  from assms have "snd (snd (run_jobs (worker E) ?ins)) = Some f"
    by (cases "run_jobs (worker E) ?ins"; cases "snd (snd (run_jobs (worker E) ?ins))")
      (simp_all add: Paths_Build_def Let_def TranslatePipeline_def)
  from run_jobs_failure_origin [OF this] show ?thesis by (simp add: set_arrange)
qed

lemma producer_feeds:
  assumes "Content root = xs @ k # v # ys" "even (length xs)"
    "\<not> HasPrefix (ToLower (Value k)) ''x-''" "\<not> HasPrefix (ToLower (Value v)) ''x-''"
  shows "\<exists>cur. \<lparr>currentNode = cur, pathNode = v\<rparr> \<in> set (producer root)"
  unfolding producer_def assms(1)
  using producer_loop_feeds [OF assms(3) assms(4), of 0 xs] assms(2) by simp

lemma FindPath_None_iff: "FindPath p q = None \<longleftrightarrow> q \<notin> set (om_keys (p_PathItems p))"
  unfolding FindPath_def FindPath_loop_find by (rule scan_none)


section \<open>The claims about the builders\<close>

text \<open>
  C1 (the claim fails on the code). The producer tests every node of the flat list
  against the prefix, value nodes too. On the mapping \<open>{/a: x-foo, /b: {}}\<close> the value
  \<open>x-foo\<close> sets the skip flag, the key \<open>/b\<close> is then skipped in its place, and the only
  input offered to construction pairs the key \<open>/a\<close> with the value of \<open>/b\<close>.
\<close>

theorem producer_tests_value_nodes:
  "producer doc_value_prefix
     = [\<lparr>currentNode = Some (scalar ''/a'' 1 1), pathNode = mapping [] 2 5\<rparr>]"
  by code_simp

text \<open>
  C2 (the claim fails on the code). \<open>getDefault\<close> compares the lower-cased key with the
  label, \<open>deleteCode\<close> compares the key itself: for the key \<open>Default\<close> the dedicated
  field is filled and the entry stays in \<open>Codes\<close>, where \<open>FindResponseByCode\<close> finds it.
\<close>

theorem Responses_Build_keeps_capitalised_default:
  "snd (Responses_Build (sample_env False False) empty_Responses doc_Default) = None \<and>
   nr_KeyNode (r_Default (fst (Responses_Build (sample_env False False) empty_Responses doc_Default)))
     = Some (scalar ''Default'' 1 1) \<and>
   om_keys (r_Codes (fst (Responses_Build (sample_env False False) empty_Responses doc_Default)))
     = [''Default''] \<and>
   FindResponseByCode (fst (Responses_Build (sample_env False False) empty_Responses doc_Default))
     ''Default'' = Some \<lparr>vr_Value = Some (mapping [] 1 10), vr_ValueNode = Some (mapping [] 1 10)\<rparr>"
  by code_simp

text \<open>
  C3, as the claim states it for \<open>Paths.Build\<close>, fails: \<open>Paths.Build\<close> has no test of the
  kind of its root. A scalar root has no children, the pipeline gets no input, and
  \<open>Build\<close> returns no error.
\<close>

theorem Paths_Build_scalar_root_no_error:
  "\<not> IsNodeMap (sample_env False False) (scalar ''hello'' 3 7) \<and>
   snd (snd (Paths_Build (sample_env False False) [] empty_Paths (scalar ''hello'' 3 7))) = None"
  by code_simp

text \<open>
  C3, amended. For every root that is not a mapping, \<open>Responses.Build\<close> returns the
  error that names the line and the column of the root (the node that \<open>NodeAlias\<close> and
  \<open>CheckForMergeNodes\<close> leave). \<open>Paths.Build\<close> makes no such test: for a root without
  children it returns no error and installs an empty \<open>PathItems\<close>, for every schedule.
\<close>

theorem malformed_root:
  "(\<not> IsNodeMap E (CheckForMergeNodes E (NodeAlias E root)) \<longrightarrow>
     snd (Responses_Build E r root) =
       Some (''responses build failed: vn node is not a map! line ''
              @ Itoa (Line (CheckForMergeNodes E (NodeAlias E root))) @ '', col ''
              @ Itoa (Column (CheckForMergeNodes E (NodeAlias E root))))) \<and>
   (Content (CheckForMergeNodes E (NodeAlias E root)) = [] \<longrightarrow>
     snd (snd (Paths_Build E sched p root)) = None \<and>
     p_PathItems (fst (Paths_Build E sched p root)) = [])"
  by (simp add: Responses_Build_def Paths_Build_def Let_def producer_def TranslatePipeline_def
      consumer_def)

theorem malformed_root_witness:
  "snd (Responses_Build (sample_env False False) sample_responses (scalar ''hello'' 3 7))
     = Some ''responses build failed: vn node is not a map! line 3, col 7'' \<and>
   snd (snd (Paths_Build (sample_env False False) [2, 0] sample_paths (scalar ''hello'' 3 7))) = None \<and>
   p_PathItems (fst (Paths_Build (sample_env False False) [2, 0] sample_paths (scalar ''hello'' 3 7)))
     = []"
proof -
  let ?E = "sample_env False False :: (node, string) env"
  let ?root = "scalar ''hello'' 3 7"
  have h1: "\<not> IsNodeMap ?E (CheckForMergeNodes ?E (NodeAlias ?E ?root))" by code_simp
  have h2: "Content (CheckForMergeNodes ?E (NodeAlias ?E ?root)) = []" by code_simp
  have m: "''responses build failed: vn node is not a map! line ''
              @ Itoa (Line (CheckForMergeNodes ?E (NodeAlias ?E ?root))) @ '', col ''
              @ Itoa (Column (CheckForMergeNodes ?E (NodeAlias ?E ?root)))
           = ''responses build failed: vn node is not a map! line 3, col 7''" by code_simp
  from malformed_root [of ?E ?root sample_responses "[2, 0]" sample_paths] h1 h2
  show ?thesis unfolding m by blast
qed

text \<open>
  C8. Whenever \<open>Paths.Build\<close> ends with a failure, the field \<open>PathItems\<close> of the receiver
  is the one it had before the call: the map filled by the output goroutine is not
  installed.
\<close>

theorem Paths_Build_error_keeps_PathItems:
  "snd (snd (Paths_Build E sched p root)) = Some e \<Longrightarrow>
     p_PathItems (fst (Paths_Build E sched p root)) = p_PathItems p"
  by (auto simp: Paths_Build_def Let_def split: prod.splits option.splits)

theorem Paths_Build_error_keeps_PathItems_witness:
  "snd (snd (Paths_Build (sample_env False True) [] sample_paths doc_missing_ref))
     = Some (Error ''path item build failed: cannot find reference: #/nope at line 1, col 13'') \<and>
   p_PathItems (fst (Paths_Build (sample_env False True) [] sample_paths doc_missing_ref))
     = p_PathItems sample_paths"
proof -
  have e: "snd (snd (Paths_Build (sample_env False True) [] sample_paths doc_missing_ref))
     = Some (Error ''path item build failed: cannot find reference: #/nope at line 1, col 13'')"
    by code_simp
  from Paths_Build_error_keeps_PathItems [OF e] e show ?thesis by simp
qed

text \<open>
  C4, as the claim states it for \<open>Paths.Build\<close>, fails: the entry whose child \<open>Build\<close>
  failed is not skipped. On \<open>{/a: bad, /b: {}}\<close> the \<open>Build\<close> of the child of \<open>/a\<close> fails,
  \<open>Paths.Build\<close> returns no error and \<open>FindPath\<close> finds \<open>/a\<close> in the result.
\<close>

theorem Paths_Build_keeps_failed_child:
  "snd (sample_build (Some (scalar ''/a'' 1 1)) (scalar ''bad'' 1 5)) = Some ''child build failed'' \<and>
   snd (snd (Paths_Build (sample_env False True) [] empty_Paths doc_bad_child)) = None \<and>
   FindPath (fst (Paths_Build (sample_env False True) [] empty_Paths doc_bad_child)) ''/a''
     = Some \<lparr>vr_Value = Some (scalar ''bad'' 1 5), vr_ValueNode = Some (scalar ''bad'' 1 5)\<rparr>"
  by code_simp

text \<open>
  C4, amended. When a nested child's \<open>Build\<close> fails: in \<open>Responses.Build\<close> the error that
  the child decoder returns is at once the result of \<open>Build\<close>, the receiver having got
  its extensions only. In \<open>Paths.Build\<close> the failure is logged when the index has a
  logger, and the entry is kept: when no job ends in a failure of its own (a
  reference that cannot be used, a pair without key node), \<open>Build\<close> returns no error
  and the result has an entry for the key of the failed child as for the key of
  every other pair offered to construction.
\<close>

theorem child_build_failure:
  fixes E :: "('c, 'x) env" and root :: node
  defines "root' \<equiv> CheckForMergeNodes E (NodeAlias E root)"
  shows
  "(IsNodeMap E root' \<and> snd (ExtractMapNoLookup E root') = Some err \<longrightarrow>
      Responses_Build E r root = (r\<lparr>r_Extensions := ExtractExtensions E root'\<rparr>, Some err)) \<and>
   (input \<in> set (producer root') \<and> currentNode input = Some cNode \<and>
    resolve E (pathNode input) = Inr pNode \<and> BuildChild E (Some cNode) pNode = (path, Some err) \<and>
    (\<forall>j\<in>set (producer root'). \<not> isl (fst (worker E j))) \<longrightarrow>
      snd (snd (Paths_Build E sched p root)) = None \<and>
      FindPath (fst (Paths_Build E sched p root)) (Value cNode) \<noteq> None \<and>
      (\<forall>j\<in>set (producer root'). \<forall>c. currentNode j = Some c \<longrightarrow>
         FindPath (fst (Paths_Build E sched p root)) (Value c) \<noteq> None) \<and>
      (HasLogger E \<longrightarrow>
         (''error building path item '' @ [CHR 0x27] @ err @ [CHR 0x27])
           \<in> set (fst (snd (Paths_Build E sched p root)))))"
proof (intro conjI impI)
  assume "IsNodeMap E root' \<and> snd (ExtractMapNoLookup E root') = Some err"
  then show "Responses_Build E r root = (r\<lparr>r_Extensions := ExtractExtensions E root'\<rparr>, Some err)"
    by (cases "ExtractMapNoLookup E root'") (simp add: Responses_Build_def Let_def root'_def)
next
  assume h: "input \<in> set (producer root') \<and> currentNode input = Some cNode \<and>
    resolve E (pathNode input) = Inr pNode \<and> BuildChild E (Some cNode) pNode = (path, Some err) \<and>
    (\<forall>j\<in>set (producer root'). \<not> isl (fst (worker E j)))"
  then have ok: "\<forall>j\<in>set (producer (CheckForMergeNodes E (NodeAlias E root))). \<not> isl (fst (worker E j))"
    by (simp add: root'_def)
  note b = Paths_Build_ok [OF ok, of sched p]
  let ?ins = "arrange sched (producer root')"
  show "snd (snd (Paths_Build E sched p root)) = None" by (simp add: b)
  have keys: "set (om_keys (p_PathItems (fst (Paths_Build E sched p root))))
      = (\<lambda>j. kr_Value (br_key (projr (fst (worker E j))))) ` set (producer root')"
    by (simp add: b consumer_keys set_arrange root'_def image_image)
  have present: "FindPath (fst (Paths_Build E sched p root)) (Value c) \<noteq> None"
    if "j \<in> set (producer root')" "currentNode j = Some c" for j c
  proof -
    from h that(1) have "\<not> isl (fst (worker E j))" by blast
    from worker_key_present [OF this that(2)] that(1) keys
    have "Value c \<in> set (om_keys (p_PathItems (fst (Paths_Build E sched p root))))" by force
    then show ?thesis by (simp add: FindPath_None_iff)
  qed
  from h present show "FindPath (fst (Paths_Build E sched p root)) (Value cNode) \<noteq> None" by blast
  from present show "\<forall>j\<in>set (producer root'). \<forall>c. currentNode j = Some c \<longrightarrow>
         FindPath (fst (Paths_Build E sched p root)) (Value c) \<noteq> None" by blast
  assume lg: "HasLogger E"
  from h have w: "snd (worker E input) = [''error building path item '' @ [CHR 0x27] @ err @ [CHR 0x27]]"
    using worker_ok [of E input pNode cNode] lg by simp
  from h have "input \<in> set ?ins" by (simp add: set_arrange)
  with w have "(''error building path item '' @ [CHR 0x27] @ err @ [CHR 0x27])
      \<in> set (concat (map (\<lambda>j. snd (worker E j)) ?ins))" by force
  then show "(''error building path item '' @ [CHR 0x27] @ err @ [CHR 0x27])
           \<in> set (fst (snd (Paths_Build E sched p root)))"
    by (simp add: b root'_def)
qed

theorem child_build_failure_witness:
  "Responses_Build (sample_env False True) sample_responses doc_bad_child
     = (sample_responses\<lparr>r_Extensions := []\<rparr>, Some ''child build failed'') \<and>
   snd (snd (Paths_Build (sample_env False True) [1] sample_paths doc_bad_child)) = None \<and>
   FindPath (fst (Paths_Build (sample_env False True) [1] sample_paths doc_bad_child)) ''/a'' \<noteq> None \<and>
   (''error building path item '' @ [CHR 0x27] @ ''child build failed'' @ [CHR 0x27])
     \<in> set (fst (snd (Paths_Build (sample_env False True) [1] sample_paths doc_bad_child)))"
proof -
  let ?E = "sample_env False True :: (node, string) env"
  let ?root' = "CheckForMergeNodes ?E (NodeAlias ?E doc_bad_child)"
  let ?input = "\<lparr>currentNode = Some (scalar ''/a'' 1 1), pathNode = scalar ''bad'' 1 5\<rparr>"
  have h1: "IsNodeMap ?E ?root' \<and> snd (ExtractMapNoLookup ?E ?root') = Some ''child build failed''"
    by code_simp
  have h2: "?input \<in> set (producer ?root') \<and> currentNode ?input = Some (scalar ''/a'' 1 1) \<and>
      resolve ?E (pathNode ?input) = Inr (scalar ''bad'' 1 5) \<and>
      BuildChild ?E (Some (scalar ''/a'' 1 1)) (scalar ''bad'' 1 5)
        = (scalar ''bad'' 1 5, Some ''child build failed'') \<and>
      (\<forall>j\<in>set (producer ?root'). \<not> isl (fst (worker ?E j)))"
    by code_simp
  have h3: "HasLogger ?E" by code_simp
  have x: "ExtractExtensions ?E ?root' = []" by code_simp
  have v: "Value (scalar ''/a'' 1 1) = ''/a''" by code_simp
  from child_build_failure [of ?E doc_bad_child "''child build failed''" sample_responses ?input
      "scalar ''/a'' 1 1" "scalar ''bad'' 1 5" "scalar ''bad'' 1 5" "[1]" sample_paths] h1 h2 h3
  show ?thesis unfolding x v by blast
qed

lemma resolve_missing:
  "IsNodeRefValue E v \<Longrightarrow> fst (LocateRefNode E v) = None \<Longrightarrow> Content v = rk # t # rest \<Longrightarrow>
   resolve E v = Inl (Error (''path item build failed: cannot find reference: '' @ Value t
                        @ '' at line '' @ Itoa (Line t) @ '', col '' @ Itoa (Column t)))"
  by (cases "LocateRefNode E v") (simp add: resolve_def)

lemma resolve_circular:
  "IsNodeRefValue E v \<Longrightarrow> LocateRefNode E v = (Some r, Some err) \<Longrightarrow>
   resolve E v = (if AllowCircularReferenceResolving E then Inr r
                  else Inl (Error (''path item build failed: '' @ err)))"
  by (simp add: resolve_def)

lemma resolve_located:
  "AllowCircularReferenceResolving E \<Longrightarrow>
   (IsNodeRefValue E n \<longrightarrow> fst (LocateRefNode E n) \<noteq> None) \<Longrightarrow> \<exists>pn. resolve E n = Inr pn"
  by (cases "LocateRefNode E n") (auto simp: resolve_def split: option.splits)

lemma worker_runs:
  "resolve E (pathNode j) = Inr pn \<Longrightarrow> currentNode j \<noteq> None \<Longrightarrow> \<not> isl (fst (worker E j))"
  using worker_ok [of E j pn] by auto

lemma only_failing_job:
  assumes f: "snd (snd (Paths_Build E sched p root)) = Some f"
    and others: "\<forall>j\<in>set (producer (CheckForMergeNodes E (NodeAlias E root))).
                   pathNode j \<noteq> v \<longrightarrow> \<not> isl (fst (worker E j))"
    and v: "resolve E v = Inl g"
  shows "f = g"
proof -
  from Paths_Build_failure_origin [OF f] obtain y
    where y: "y \<in> set (producer (CheckForMergeNodes E (NodeAlias E root)))" "fst (worker E y) = Inl f"
    by blast
  with others have "pathNode y = v" by auto
  with v have "worker E y = (Inl g, [])" by (simp add: worker_resolve_fail)
  with y(2) show ?thesis by simp
qed

text \<open>
  C6, as the claim states it, fails in two ways. A reference that cannot be located
  and sits under an extension key is never offered to construction: on
  \<open>{x-a: {$ref: #/nope}}\<close> \<open>Build\<close> returns no error. And \<open>Build\<close> returns the failure of
  the first job that fails: on \<open>{/a: {$ref: #/loop}, /b: {$ref: #/nope}}\<close>, circular
  references being refused and the jobs completing in document order, the error
  is the one of \<open>/a\<close> and carries nothing of the reference \<open>#/nope\<close>.
\<close>

theorem Paths_Build_unresolvable_not_reported:
  "IsNodeRefValue (sample_env False True) (ref_to ''#/nope'' 1) \<and>
   fst (LocateRefNode (sample_env False True) (ref_to ''#/nope'' 1)) = None \<and>
   Content doc_extension_ref = [scalar ''x-a'' 1 1, ref_to ''#/nope'' 1] \<and>
   snd (snd (Paths_Build (sample_env False True) [] empty_Paths doc_extension_ref)) = None \<and>
   IsNodeRefValue (sample_env False True) (ref_to ''#/nope'' 2) \<and>
   fst (LocateRefNode (sample_env False True) (ref_to ''#/nope'' 2)) = None \<and>
   Content doc_loop_and_missing
     = [scalar ''/a'' 1 1, ref_to ''#/loop'' 1, scalar ''/b'' 2 1, ref_to ''#/nope'' 2] \<and>
   snd (snd (Paths_Build (sample_env False True) [] empty_Paths doc_loop_and_missing))
     = Some (Error ''path item build failed: circular reference: #/loop'')"
  by code_simp

text \<open>
  C6, amended. Take a paths mapping with an entry offered to construction (neither the
  text of its key nor the text of its value begins, case-insensitively, with \<open>x-\<close>)
  whose value is a reference that the index cannot locate. Then \<open>Paths.Build\<close> fails,
  whatever the completion order; the failure is that of the first job to fail, and
  when every other job succeeds it is the error that carries the reference text, its
  line and its column.
\<close>

theorem unresolvable_reference:
  fixes E :: "('c, 'x) env" and root :: node
  defines "root' \<equiv> CheckForMergeNodes E (NodeAlias E root)"
  shows
  "Content root' = xs @ k # v # ys \<and> even (length xs) \<and>
   \<not> HasPrefix (ToLower (Value k)) ''x-'' \<and> \<not> HasPrefix (ToLower (Value v)) ''x-'' \<and>
   IsNodeRefValue E v \<and> fst (LocateRefNode E v) = None \<and> Content v = rk # t # rest \<longrightarrow>
     (\<exists>f. snd (snd (Paths_Build E sched p root)) = Some f) \<and>
     ((\<forall>j\<in>set (producer root'). pathNode j \<noteq> v \<longrightarrow> \<not> isl (fst (worker E j))) \<longrightarrow>
        snd (snd (Paths_Build E sched p root)) =
          Some (Error (''path item build failed: cannot find reference: '' @ Value t
                        @ '' at line '' @ Itoa (Line t) @ '', col '' @ Itoa (Column t))))"
proof (intro impI)
  assume h: "Content root' = xs @ k # v # ys \<and> even (length xs) \<and>
   \<not> HasPrefix (ToLower (Value k)) ''x-'' \<and> \<not> HasPrefix (ToLower (Value v)) ''x-'' \<and>
   IsNodeRefValue E v \<and> fst (LocateRefNode E v) = None \<and> Content v = rk # t # rest"
  let ?msg = "Error (''path item build failed: cannot find reference: '' @ Value t
                        @ '' at line '' @ Itoa (Line t) @ '', col '' @ Itoa (Column t))"
  from h producer_feeds [of root' xs k v ys] obtain cur
    where fed: "\<lparr>currentNode = cur, pathNode = v\<rparr> \<in> set (producer root')" by blast
  from h have res: "resolve E v = Inl ?msg" by (simp add: resolve_missing)
  then have "isl (fst (worker E \<lparr>currentNode = cur, pathNode = v\<rparr>))"
    by (simp add: worker_resolve_fail)
  with fed have fails: "\<exists>f. snd (snd (Paths_Build E sched p root)) = Some f"
    unfolding root'_def by (rule Paths_Build_fails)
  have "snd (snd (Paths_Build E sched p root)) = Some ?msg"
    if o: "\<forall>j\<in>set (producer root'). pathNode j \<noteq> v \<longrightarrow> \<not> isl (fst (worker E j))"
  proof -
    from fails obtain f where f: "snd (snd (Paths_Build E sched p root)) = Some f" by blast
    from only_failing_job [OF f o [unfolded root'_def] res] f show ?thesis by simp
  qed
  with fails show "(\<exists>f. snd (snd (Paths_Build E sched p root)) = Some f) \<and>
     ((\<forall>j\<in>set (producer root'). pathNode j \<noteq> v \<longrightarrow> \<not> isl (fst (worker E j))) \<longrightarrow>
        snd (snd (Paths_Build E sched p root)) = Some ?msg)" by blast
qed

theorem unresolvable_reference_witness:
  "snd (snd (Paths_Build (sample_env False True) [3] sample_paths doc_missing_ref))
     = Some (Error ''path item build failed: cannot find reference: #/nope at line 1, col 13'')"
proof -
  let ?E = "sample_env False True :: (node, string) env"
  let ?root' = "CheckForMergeNodes ?E (NodeAlias ?E doc_missing_ref)"
  let ?k = "scalar ''/a'' 1 1"
  let ?v = "ref_to ''#/nope'' 1"
  let ?t = "scalar ''#/nope'' 1 13"
  have h: "Content ?root' = [] @ ?k # ?v # [] \<and> even (length ([] :: node list)) \<and>
      \<not> HasPrefix (ToLower (Value ?k)) ''x-'' \<and> \<not> HasPrefix (ToLower (Value ?v)) ''x-'' \<and>
      IsNodeRefValue ?E ?v \<and> fst (LocateRefNode ?E ?v) = None \<and>
      Content ?v = scalar ''$ref'' 1 7 # ?t # []"
    by code_simp
  have o: "\<forall>j\<in>set (producer ?root'). pathNode j \<noteq> ?v \<longrightarrow> \<not> isl (fst (worker ?E j))"
    by code_simp
  have m: "''path item build failed: cannot find reference: '' @ Value ?t
             @ '' at line '' @ Itoa (Line ?t) @ '', col '' @ Itoa (Column ?t)
           = ''path item build failed: cannot find reference: #/nope at line 1, col 13''"
    by code_simp
  from unresolvable_reference [of ?E doc_missing_ref "[]" ?k ?v "[]" "scalar ''$ref'' 1 7" ?t "[]"
      "[3]" sample_paths] h o
  show ?thesis unfolding m by blast
qed

text \<open>
  C7. Take a paths mapping with an entry offered to construction whose value is a
  reference that the index locates together with an error (the resolution would
  close a cycle). When circular references are refused, \<open>Paths.Build\<close> fails, whatever
  the completion order, and when every other job succeeds the error is
  \<open>path item build failed:\<close> followed by the error of the index. When they are
  allowed, the reference resolves to the located node, and \<open>Build\<close> returns no error
  and holds the entry, provided every pair has its key node and every reference is
  located.
\<close>

theorem circular_reference_policy:
  fixes E :: "('c, 'x) env" and root :: node
  defines "root' \<equiv> CheckForMergeNodes E (NodeAlias E root)"
  shows
  "Content root' = xs @ k # v # ys \<and> even (length xs) \<and>
   \<not> HasPrefix (ToLower (Value k)) ''x-'' \<and> \<not> HasPrefix (ToLower (Value v)) ''x-'' \<and>
   IsNodeRefValue E v \<and> LocateRefNode E v = (Some r, Some err) \<longrightarrow>
     (\<not> AllowCircularReferenceResolving E \<longrightarrow>
        (\<exists>f. snd (snd (Paths_Build E sched p root)) = Some f) \<and>
        ((\<forall>j\<in>set (producer root'). pathNode j \<noteq> v \<longrightarrow> \<not> isl (fst (worker E j))) \<longrightarrow>
           snd (snd (Paths_Build E sched p root))
             = Some (Error (''path item build failed: '' @ err)))) \<and>
     (AllowCircularReferenceResolving E \<longrightarrow>
        resolve E v = Inr r \<and>
        ((\<forall>j\<in>set (producer root'). currentNode j \<noteq> None \<and>
             (IsNodeRefValue E (pathNode j) \<longrightarrow> fst (LocateRefNode E (pathNode j)) \<noteq> None)) \<longrightarrow>
           snd (snd (Paths_Build E sched p root)) = None \<and>
           (\<exists>c. \<lparr>currentNode = Some c, pathNode = v\<rparr> \<in> set (producer root') \<and>
                FindPath (fst (Paths_Build E sched p root)) (Value c) \<noteq> None)))"
proof (intro impI conjI)
  assume h: "Content root' = xs @ k # v # ys \<and> even (length xs) \<and>
   \<not> HasPrefix (ToLower (Value k)) ''x-'' \<and> \<not> HasPrefix (ToLower (Value v)) ''x-'' \<and>
   IsNodeRefValue E v \<and> LocateRefNode E v = (Some r, Some err)"
  from h producer_feeds [of root' xs k v ys] obtain cur
    where fed: "\<lparr>currentNode = cur, pathNode = v\<rparr> \<in> set (producer root')" by blast
  from h have res: "resolve E v = (if AllowCircularReferenceResolving E then Inr r
                  else Inl (Error (''path item build failed: '' @ err)))"
    by (simp add: resolve_circular)
  {
    assume no: "\<not> AllowCircularReferenceResolving E"
    with res have r': "resolve E v = Inl (Error (''path item build failed: '' @ err))" by simp
    then have "isl (fst (worker E \<lparr>currentNode = cur, pathNode = v\<rparr>))"
      by (simp add: worker_resolve_fail)
    with fed show fails: "\<exists>f. snd (snd (Paths_Build E sched p root)) = Some f"
      unfolding root'_def by (rule Paths_Build_fails)
    assume o: "\<forall>j\<in>set (producer root'). pathNode j \<noteq> v \<longrightarrow> \<not> isl (fst (worker E j))"
    from fails obtain f where f: "snd (snd (Paths_Build E sched p root)) = Some f" by blast
    from only_failing_job [OF f o [unfolded root'_def] r'] f
    show "snd (snd (Paths_Build E sched p root)) = Some (Error (''path item build failed: '' @ err))"
      by simp
  }
  {
    assume yes: "AllowCircularReferenceResolving E"
    with res show "resolve E v = Inr r" by simp
    assume a: "\<forall>j\<in>set (producer root'). currentNode j \<noteq> None \<and>
             (IsNodeRefValue E (pathNode j) \<longrightarrow> fst (LocateRefNode E (pathNode j)) \<noteq> None)"
    have ok: "\<forall>j\<in>set (producer (CheckForMergeNodes E (NodeAlias E root))). \<not> isl (fst (worker E j))"
    proof
      fix j assume j: "j \<in> set (producer (CheckForMergeNodes E (NodeAlias E root)))"
      with a have c: "currentNode j \<noteq> None"
        and l: "IsNodeRefValue E (pathNode j) \<longrightarrow> fst (LocateRefNode E (pathNode j)) \<noteq> None"
        by (auto simp: root'_def)
      from resolve_located [OF yes l] obtain pn where "resolve E (pathNode j) = Inr pn" by blast
      from worker_runs [OF this c] show "\<not> isl (fst (worker E j))" .
    qed
    note b = Paths_Build_ok [OF ok, of sched p]
    show "snd (snd (Paths_Build E sched p root)) = None" by (simp add: b)
    from fed a obtain c where c: "cur = Some c" by force
    have keys: "set (om_keys (p_PathItems (fst (Paths_Build E sched p root))))
      = (\<lambda>j. kr_Value (br_key (projr (fst (worker E j))))) ` set (producer root')"
      by (simp add: b consumer_keys set_arrange root'_def image_image)
    from ok fed have "\<not> isl (fst (worker E \<lparr>currentNode = cur, pathNode = v\<rparr>))"
      by (simp add: root'_def)
    from worker_key_present [OF this, of c] c fed keys
    have "Value c \<in> set (om_keys (p_PathItems (fst (Paths_Build E sched p root))))" by force
    then have "FindPath (fst (Paths_Build E sched p root)) (Value c) \<noteq> None"
      by (simp add: FindPath_None_iff)
    with fed c show "\<exists>c. \<lparr>currentNode = Some c, pathNode = v\<rparr> \<in> set (producer root') \<and>
                FindPath (fst (Paths_Build E sched p root)) (Value c) \<noteq> None" by blast
  }
qed

theorem circular_reference_policy_witness:
  "snd (snd (Paths_Build (sample_env False True) [1] sample_paths doc_loop))
     = Some (Error ''path item build failed: circular reference: #/loop'') \<and>
   resolve (sample_env True True) (ref_to ''#/loop'' 1) = Inr (mapping [] 200 1) \<and>
   snd (snd (Paths_Build (sample_env True True) [1] sample_paths doc_loop)) = None"
proof -
  let ?D = "sample_env False True :: (node, string) env"
  let ?A = "sample_env True True :: (node, string) env"
  let ?k = "scalar ''/a'' 1 1"
  let ?v = "ref_to ''#/loop'' 1"
  have hd: "Content (CheckForMergeNodes ?D (NodeAlias ?D doc_loop)) = [] @ ?k # ?v # [] \<and>
      even (length ([] :: node list)) \<and>
      \<not> HasPrefix (ToLower (Value ?k)) ''x-'' \<and> \<not> HasPrefix (ToLower (Value ?v)) ''x-'' \<and>
      IsNodeRefValue ?D ?v \<and>
      LocateRefNode ?D ?v = (Some (mapping [] 200 1), Some ''circular reference: #/loop'')"
    by code_simp
  have ha: "Content (CheckForMergeNodes ?A (NodeAlias ?A doc_loop)) = [] @ ?k # ?v # [] \<and>
      even (length ([] :: node list)) \<and>
      \<not> HasPrefix (ToLower (Value ?k)) ''x-'' \<and> \<not> HasPrefix (ToLower (Value ?v)) ''x-'' \<and>
      IsNodeRefValue ?A ?v \<and>
      LocateRefNode ?A ?v = (Some (mapping [] 200 1), Some ''circular reference: #/loop'')"
    by code_simp
  have pd: "\<not> AllowCircularReferenceResolving ?D" by code_simp
  have pa: "AllowCircularReferenceResolving ?A" by code_simp
  have od: "\<forall>j\<in>set (producer (CheckForMergeNodes ?D (NodeAlias ?D doc_loop))).
      pathNode j \<noteq> ?v \<longrightarrow> \<not> isl (fst (worker ?D j))"
    by code_simp
  have oa: "\<forall>j\<in>set (producer (CheckForMergeNodes ?A (NodeAlias ?A doc_loop))).
      currentNode j \<noteq> None \<and>
      (IsNodeRefValue ?A (pathNode j) \<longrightarrow> fst (LocateRefNode ?A (pathNode j)) \<noteq> None)"
    by code_simp
  from circular_reference_policy [of ?D doc_loop "[]" ?k ?v "[]" "mapping [] 200 1"
      "''circular reference: #/loop''" "[1]" sample_paths] hd pd od
  have d: "snd (snd (Paths_Build ?D [1] sample_paths doc_loop))
     = Some (Error (''path item build failed: '' @ ''circular reference: #/loop''))"
    by blast
  from circular_reference_policy [of ?A doc_loop "[]" ?k ?v "[]" "mapping [] 200 1"
      "''circular reference: #/loop''" "[1]" sample_paths] ha pa oa
  have a: "resolve ?A ?v = Inr (mapping [] 200 1) \<and>
      snd (snd (Paths_Build ?A [1] sample_paths doc_loop)) = None"
    by blast
  from d a show ?thesis by simp
qed

section \<open>Properties of Hash\<close>

lemma sort_cong_mset: "mset xs = mset ys \<Longrightarrow> sort xs = sort (ys :: 'a :: linorder list)"
  by (rule properties_for_sort) simp_all

lemma fold_upd_map_of:
  "fold (\<lambda>pair cm. cm(kr_Value (fst pair) \<mapsto> vr_Value (snd pair))) m cm0
     = cm0 ++ map_of (rev (map (\<lambda>pair. (kr_Value (fst pair), vr_Value (snd pair))) m))"
proof (induction m arbitrary: cm0)
  case Nil
  then show ?case by simp
next
  case (Cons a m)
  let ?f = "\<lambda>pair cm. cm(kr_Value (fst pair) \<mapsto> vr_Value (snd pair))"
  let ?g = "\<lambda>pair. (kr_Value (fst pair), vr_Value (snd pair))"
  have "fold ?f (a # m) cm0 = fold ?f m (cm0(kr_Value (fst a) \<mapsto> vr_Value (snd a)))"
    by simp
  also have "\<dots> = cm0(kr_Value (fst a) \<mapsto> vr_Value (snd a)) ++ map_of (rev (map ?g m))"
    by (rule Cons.IH)
  also have "\<dots> = cm0 ++ (map_of [?g a] ++ map_of (rev (map ?g m)))"
    by (rule ext) (simp add: map_add_def split: option.splits)
  also have "\<dots> = cm0 ++ map_of (rev (map ?g (a # m)))"
    by (simp only: list.map rev.simps map_of_append)
  finally show ?case .
qed

lemma cmap_of_map_of:
  "cmap_of m = map_of (rev (map (\<lambda>pair. (kr_Value (fst pair), vr_Value (snd pair))) m))"
  by (simp add: cmap_of_def fold_upd_map_of)

lemma cmap_of_perm:
  assumes d: "distinct (om_keys xs)" and m: "mset ys = mset xs"
  shows "cmap_of ys = cmap_of xs"
proof -
  let ?g = "\<lambda>pair :: key_ref \<times> 'a value_ref. (kr_Value (fst pair), vr_Value (snd pair))"
  from m have mk: "mset (om_keys ys) = mset (om_keys xs)" by (simp add: om_keys_def)
  with d have dy: "distinct (om_keys ys)" by (metis mset_eq_imp_distinct_iff)
  have fx: "map fst (rev (map ?g xs)) = rev (om_keys xs)"
    by (simp add: om_keys_def rev_map comp_def)
  have fy: "map fst (rev (map ?g ys)) = rev (om_keys ys)"
    by (simp add: om_keys_def rev_map comp_def)
  from m have "set ys = set xs" by (rule mset_eq_setD)
  then have s: "set (rev (map ?g ys)) = set (rev (map ?g xs))" by simp
  have "map_of (rev (map ?g ys)) = map_of (rev (map ?g xs))"
    by (rule map_of_inject_set [THEN iffD2]) (simp_all only: fx fy d dy distinct_rev s)
  then show ?thesis by (simp only: cmap_of_map_of)
qed

lemma child_lines_perm:
  assumes "distinct (om_keys xs)" "mset ys = mset xs"
  shows "child_lines E ys = child_lines E xs"
proof -
  from assms(2) have "mset (om_keys ys) = mset (om_keys xs)" by (simp add: om_keys_def)
  then have "sort (om_keys ys) = sort (om_keys xs)" by (rule sort_cong_mset)
  with cmap_of_perm [OF assms] show ?thesis by (simp add: child_lines_def)
qed

lemma extension_lines_perm:
  assumes "mset exts' = mset exts"
  shows "extension_lines E o1 exts' = extension_lines E o2 exts"
proof -
  have "mset (arrange o1 exts') = mset (arrange o2 exts)" by (simp add: mset_arrange assms)
  then show ?thesis unfolding extension_lines_def by (intro sort_cong_mset) simp
qed

lemma child_lines_decoded:
  assumes "map decoded ys = map decoded xs"
  shows "child_lines E ys = child_lines E xs"
proof -
  have k: "om_keys m = map fst (map decoded m)" for m :: "(key_ref \<times> 'v value_ref) list"
    by (simp add: om_keys_def decoded_def comp_def)
  have c: "cmap_of m = map_of (rev (map decoded m))" for m :: "(key_ref \<times> 'v value_ref) list"
    by (simp add: cmap_of_map_of decoded_def [abs_def])
  show ?thesis by (simp only: child_lines_def k c assms)
qed

lemma extension_lines_decoded:
  assumes "mset (map decoded exts') = mset (map decoded exts)"
  shows "extension_lines E o1 exts' = extension_lines E o2 exts"
proof -
  let ?g = "\<lambda>d. fst d @ ''-'' @ hex_digest (Sum256 E (Sprint E (snd d)))"
  let ?f = "\<lambda>entry. kr_Value (fst entry) @ ''-''
                  @ hex_digest (Sum256 E (Sprint E (vr_Value (snd entry))))"
  have f: "map ?f xs = map ?g (map decoded xs)" for xs
    by (simp add: decoded_def)
  have a: "mset (map decoded (arrange ord xs)) = mset (map decoded xs)" for ord xs
    by (simp add: mset_arrange)
  have "mset (map ?f (arrange o1 exts')) = image_mset ?g (mset (map decoded (arrange o1 exts')))"
    by (simp only: f mset_map)
  also have "\<dots> = image_mset ?g (mset (map decoded (arrange o2 exts)))"
    by (simp only: a assms)
  also have "\<dots> = mset (map ?f (arrange o2 exts))"
    by (simp only: f mset_map)
  finally show ?thesis unfolding extension_lines_def by (rule sort_cong_mset)
qed

lemma om_Set_fresh: "kr_Value k \<notin> set (om_keys m) \<Longrightarrow> om_Set k v m = m @ [(k, v)]"
proof (induction m)
  case Nil
  then show ?case by simp
next
  case (Cons a m)
  then show ?case by (cases a) (auto simp: om_keys_def)
qed

lemma fold_om_Set_fresh:
  "distinct (om_keys m0 @ map (\<lambda>r. kr_Value (br_key r)) outs) \<Longrightarrow>
   fold (\<lambda>r m. om_Set (br_key r) (br_value r) m) outs m0
     = m0 @ map (\<lambda>r. (br_key r, br_value r)) outs"
proof (induction outs arbitrary: m0)
  case Nil
  then show ?case by simp
next
  case (Cons a outs)
  from Cons.prems have fresh: "kr_Value (br_key a) \<notin> set (om_keys m0)" by auto
  have k: "om_keys (m0 @ [(br_key a, br_value a)]) = om_keys m0 @ [kr_Value (br_key a)]"
    by (simp add: om_keys_def)
  from Cons.prems have "distinct (om_keys (m0 @ [(br_key a, br_value a)])
      @ map (\<lambda>r. kr_Value (br_key r)) outs)"
    unfolding k by auto
  from Cons.IH [OF this] show ?case by (simp add: om_Set_fresh [OF fresh])
qed

lemma consumer_fresh:
  "distinct (map (\<lambda>r. kr_Value (br_key r)) outs) \<Longrightarrow>
   consumer outs = map (\<lambda>r. (br_key r, br_value r)) outs"
  unfolding consumer_def using fold_om_Set_fresh [of "[]" outs] by (simp add: om_keys_def)

lemma distinct_map_Some: "distinct (map (\<lambda>x. Some (f x)) xs) \<Longrightarrow> distinct (map f xs)"
  by (induction xs) auto

lemma Paths_Build_PathItems_perm:
  fixes E :: "('c, 'x) env"
  assumes ok: "\<forall>j\<in>set (producer (CheckForMergeNodes E (NodeAlias E root))). \<not> isl (fst (worker E j))"
    and d: "distinct (map (\<lambda>j. map_option Value (currentNode j))
                 (producer (CheckForMergeNodes E (NodeAlias E root))))"
  shows "distinct (om_keys (p_PathItems (fst (Paths_Build E s2 p root))))"
    and "mset (p_PathItems (fst (Paths_Build E s1 p root)))
          = mset (p_PathItems (fst (Paths_Build E s2 p root)))"
proof -
  let ?ins = "producer (CheckForMergeNodes E (NodeAlias E root))"
  let ?w = "\<lambda>j. projr (fst (worker E j))"
  let ?key = "\<lambda>r :: 'c buildResult. kr_Value (br_key r)"
  let ?pair = "\<lambda>r :: 'c buildResult. (br_key r, br_value r)"
  have key: "Some (?key (?w j)) = map_option Value (currentNode j)" if "j \<in> set ?ins" for j
  proof -
    from ok that have n: "\<not> isl (fst (worker E j))" by blast
    then obtain res where r: "fst (worker E j) = Inr res" by (cases "fst (worker E j)") auto
    from worker_key [OF r] obtain c where "currentNode j = Some c" "kr_Value (br_key res) = Value c"
      by blast
    with r show ?thesis by simp
  qed
  have eq: "map (\<lambda>j. Some (?key (?w j))) ?ins = map (\<lambda>j. map_option Value (currentNode j)) ?ins"
    by (rule map_cong) (simp_all add: key)
  from d have "distinct (map (\<lambda>j. Some (?key (?w j))) ?ins)" by (simp only: eq)
  then have dk: "distinct (map (\<lambda>j. ?key (?w j)) ?ins)" by (rule distinct_map_Some)
  have dist: "distinct (map ?key (map ?w (arrange s ?ins)))" for s
  proof -
    have "mset (map (\<lambda>j. ?key (?w j)) (arrange s ?ins)) = mset (map (\<lambda>j. ?key (?w j)) ?ins)"
      by (simp add: mset_arrange)
    with dk have "distinct (map (\<lambda>j. ?key (?w j)) (arrange s ?ins))"
      by (metis mset_eq_imp_distinct_iff)
    then show ?thesis by (simp add: comp_def)
  qed
  have items: "p_PathItems (fst (Paths_Build E s p root)) = map ?pair (map ?w (arrange s ?ins))" for s
    by (simp add: Paths_Build_ok [OF ok] consumer_fresh [OF dist])
  have "om_keys (map ?pair (map ?w (arrange s2 ?ins))) = map ?key (map ?w (arrange s2 ?ins))"
    by (simp add: om_keys_def comp_def)
  with dist [of s2] show "distinct (om_keys (p_PathItems (fst (Paths_Build E s2 p root))))"
    by (simp only: items)
  have "mset (map ?pair (map ?w (arrange s1 ?ins))) = mset (map ?pair (map ?w (arrange s2 ?ins)))"
    by (simp add: mset_arrange)
  then show "mset (p_PathItems (fst (Paths_Build E s1 p root)))
          = mset (p_PathItems (fst (Paths_Build E s2 p root)))"
    by (simp only: items)
qed

lemma Paths_Build_Hash_schedule:
  fixes E :: "('c, 'x) env"
  assumes ok: "\<forall>j\<in>set (producer (CheckForMergeNodes E (NodeAlias E root))). \<not> isl (fst (worker E j))"
    and d: "distinct (map (\<lambda>j. map_option Value (currentNode j))
                 (producer (CheckForMergeNodes E (NodeAlias E root))))"
  shows "Paths_Hash E o1 (fst (Paths_Build E s1 p root)) = Paths_Hash E o2 (fst (Paths_Build E s2 p root))"
proof -
  note pm = Paths_Build_PathItems_perm [OF ok d]
  have c: "child_lines E (p_PathItems (fst (Paths_Build E s1 p root)))
      = child_lines E (p_PathItems (fst (Paths_Build E s2 p root)))"
    by (rule child_lines_perm) (rule pm)+
  have e: "p_Extensions (fst (Paths_Build E s1 p root)) = p_Extensions (fst (Paths_Build E s2 p root))"
    by (simp add: Paths_Build_ok [OF ok])
  have x: "extension_lines E o1 (p_Extensions (fst (Paths_Build E s1 p root)))
      = extension_lines E o2 (p_Extensions (fst (Paths_Build E s2 p root)))"
    by (rule extension_lines_perm) (simp only: e)
  show ?thesis by (simp only: Paths_Hash_def Let_def c x)
qed

lemma om_keys_om_Delete_subset: "set (om_keys (om_Delete k m)) \<subseteq> set (om_keys m)"
proof (induction m)
  case Nil
  then show ?case by simp
next
  case (Cons a m)
  then show ?case by (cases a) (auto simp: om_keys_def)
qed

lemma distinct_om_Delete: "distinct (om_keys m) \<Longrightarrow> distinct (om_keys (om_Delete k m))"
proof (induction m)
  case Nil
  then show ?case by simp
next
  case (Cons a m)
  from om_keys_om_Delete_subset [of k m] Cons show ?case
    by (cases a) (auto simp: om_keys_def)
qed

lemma extract_entries_distinct:
  "distinct (om_keys m) \<Longrightarrow> extract_entries build ps m = (Some m', e) \<Longrightarrow> distinct (om_keys m')"
proof (induction ps arbitrary: m)
  case Nil
  then show ?case by simp
next
  case (Cons kv ps)
  show ?case
  proof (cases "HasPrefix (Value (fst kv)) ''x-''")
    case True
    with Cons.prems(2) have "extract_entries build ps m = (Some m', e)" by simp
    from Cons.IH [OF Cons.prems(1) this] show ?thesis .
  next
    case False
    obtain child err where b: "build (Some (fst kv)) (snd kv) = (child, err)"
      by (cases "build (Some (fst kv)) (snd kv)")
    show ?thesis
    proof (cases err)
      case None
      let ?m = "om_Set \<lparr>kr_Value = Value (fst kv), kr_KeyNode = Some (fst kv)\<rparr>
                          \<lparr>vr_Value = Some child, vr_ValueNode = Some (snd kv)\<rparr> m"
      from Cons.prems(2) False b None have "extract_entries build ps ?m = (Some m', e)" by simp
      moreover from Cons.prems(1) have "distinct (om_keys ?m)" by (rule distinct_om_Set)
      ultimately show ?thesis by (rule Cons.IH [rotated])
    next
      case (Some x)
      with Cons.prems(2) False b show ?thesis by simp
    qed
  qed
qed

lemma extract_entries_nil_map:
  "fst (extract_entries build ps m) = None \<Longrightarrow> snd (extract_entries build ps m) \<noteq> None"
  by (induction ps arbitrary: m) (auto split: prod.splits option.splits)

lemma deleteCode_distinct:
  "distinct (om_keys (r_Codes r)) \<Longrightarrow> distinct (om_keys (r_Codes (deleteCode r code)))"
  by (simp add: deleteCode_def distinct_om_Delete split: option.splits)

lemma Responses_Build_distinct:
  assumes x: "ExtractMapNoLookup E = spec_ExtractMapNoLookup build"
    and ok: "snd (Responses_Build E r root) = None"
  shows "distinct (om_keys (r_Codes (fst (Responses_Build E r root))))"
proof -
  let ?root = "CheckForMergeNodes E (NodeAlias E root)"
  from ok have m: "IsNodeMap E ?root" by (auto simp: Responses_Build_def Let_def split: if_splits)
  obtain codes err where e: "spec_ExtractMapNoLookup build ?root = (codes, err)"
    by (cases "spec_ExtractMapNoLookup build ?root")
  with ok m x have n: "err = None"
    by (cases err) (auto simp: Responses_Build_def Let_def)
  from e obtain c where c: "codes = Some c" "distinct (om_keys c)"
  proof (cases codes)
    case None
    with e n have "extract_entries build (pairs_of (Content ?root)) [] = (None, None)"
      by (simp add: spec_ExtractMapNoLookup_def)
    with extract_entries_nil_map [of build "pairs_of (Content ?root)" "[]"] have False by simp
    then show ?thesis ..
  next
    case (Some c)
    with e have "extract_entries build (pairs_of (Content ?root)) [] = (Some c, err)"
      by (simp add: spec_ExtractMapNoLookup_def)
    from extract_entries_distinct [OF _ this] have "distinct (om_keys c)" by (simp add: om_keys_def)
    with Some that show ?thesis by blast
  qed
  from m x e n c show ?thesis
    by (auto simp: Responses_Build_def Let_def deleteCode_distinct split: option.splits)
qed

text \<open>
  C5. The digest does not depend on the order of the child map. For an object whose
  child map has pairwise different key texts, replacing the map by any permutation
  of its entries leaves \<open>Hash\<close> as it was, for \<open>Paths\<close> and for \<open>Responses\<close>, whatever the
  order in which the two calls visit the extension map. Every object built has such
  a child map: the one that \<open>Paths.Build\<close> installs, and the one that \<open>Responses.Build\<close>
  leaves when the child decoder is the one described by the spec.
\<close>

theorem Hash_order_independent:
  "(distinct (om_keys (p_PathItems p)) \<and> mset items = mset (p_PathItems p) \<longrightarrow>
      Paths_Hash E o1 (p\<lparr>p_PathItems := items\<rparr>) = Paths_Hash E o2 p) \<and>
   (distinct (om_keys (r_Codes r)) \<and> mset codes = mset (r_Codes r) \<longrightarrow>
      Responses_Hash E o1 (r\<lparr>r_Codes := codes\<rparr>) = Responses_Hash E o2 r) \<and>
   (snd (snd (Paths_Build E sched p root)) = None \<longrightarrow>
      distinct (om_keys (p_PathItems (fst (Paths_Build E sched p root))))) \<and>
   (ExtractMapNoLookup E = spec_ExtractMapNoLookup build \<and> snd (Responses_Build E r doc) = None \<longrightarrow>
      distinct (om_keys (r_Codes (fst (Responses_Build E r doc)))))"
proof (intro conjI impI)
  assume "distinct (om_keys (p_PathItems p)) \<and> mset items = mset (p_PathItems p)"
  then have "child_lines E items = child_lines E (p_PathItems p)"
    by (intro child_lines_perm) blast+
  moreover have "extension_lines E o1 (p_Extensions p) = extension_lines E o2 (p_Extensions p)"
    by (rule extension_lines_perm) simp
  ultimately show "Paths_Hash E o1 (p\<lparr>p_PathItems := items\<rparr>) = Paths_Hash E o2 p"
    by (simp add: Paths_Hash_def Let_def)
next
  assume "distinct (om_keys (r_Codes r)) \<and> mset codes = mset (r_Codes r)"
  then have "child_lines E codes = child_lines E (r_Codes r)"
    by (intro child_lines_perm) blast+
  moreover have "extension_lines E o1 (r_Extensions r) = extension_lines E o2 (r_Extensions r)"
    by (rule extension_lines_perm) simp
  ultimately show "Responses_Hash E o1 (r\<lparr>r_Codes := codes\<rparr>) = Responses_Hash E o2 r"
    by (simp add: Responses_Hash_def Let_def)
next
  assume "snd (snd (Paths_Build E sched p root)) = None"
  then show "distinct (om_keys (p_PathItems (fst (Paths_Build E sched p root))))"
    by (auto simp: Paths_Build_def Let_def consumer_distinct split: prod.splits option.splits)
next
  assume "ExtractMapNoLookup E = spec_ExtractMapNoLookup build \<and> snd (Responses_Build E r doc) = None"
  then show "distinct (om_keys (r_Codes (fst (Responses_Build E r doc))))"
    by (intro Responses_Build_distinct) blast+
qed

theorem Hash_order_independent_witness:
  "Paths_Hash (sample_env False True) [1] (sample_paths\<lparr>p_PathItems := rev (p_PathItems sample_paths)\<rparr>)
     = Paths_Hash (sample_env False True) [] sample_paths \<and>
   Responses_Hash (sample_env False True) [1]
       (sample_responses\<lparr>r_Codes := rev (r_Codes sample_responses)\<rparr>)
     = Responses_Hash (sample_env False True) [] sample_responses \<and>
   distinct (om_keys (p_PathItems (fst (Paths_Build (sample_env False True) [1] sample_paths
      doc_bad_child)))) \<and>
   distinct (om_keys (r_Codes (fst (Responses_Build (sample_env False True) sample_responses
      doc_Default))))"
proof -
  let ?E = "sample_env False True :: (node, string) env"
  have hp: "distinct (om_keys (p_PathItems sample_paths)) \<and>
      mset (rev (p_PathItems sample_paths)) = mset (p_PathItems sample_paths)"
    by (simp, code_simp)
  have hr: "distinct (om_keys (r_Codes sample_responses)) \<and>
      mset (rev (r_Codes sample_responses)) = mset (r_Codes sample_responses)"
    by (simp, code_simp)
  have hb: "snd (snd (Paths_Build ?E [1] sample_paths doc_bad_child)) = None" by code_simp
  have hx: "ExtractMapNoLookup ?E = spec_ExtractMapNoLookup sample_build \<and>
      snd (Responses_Build ?E sample_responses doc_Default) = None"
    by (simp add: sample_env_def, code_simp)
  from Hash_order_independent [of sample_paths "rev (p_PathItems sample_paths)" ?E "[1]" "[]"
      sample_responses "rev (r_Codes sample_responses)" "[1]" doc_bad_child sample_build doc_Default]
    hp hr hb hx
  show ?thesis by blast
qed

text \<open>
  C9. \<open>Hash\<close> is a function of the decoded content. Two objects whose child maps hold
  the same decoded children in the same order, whose extension maps hold the same
  decoded entries, and (for \<open>Responses\<close>) whose default entries are the same, have the
  same digest, a value of 256 bits, whatever the order in which each call visits
  the native map of extensions; so has one object hashed twice. And two runs of
  \<open>Paths.Build\<close> on the same document, with any two completion orders of the jobs,
  give objects with the same digest, when no job fails and the keys of the pairs
  offered to construction are pairwise different.
\<close>

theorem Hash_deterministic:
  "(map decoded (p_PathItems q) = map decoded (p_PathItems p) \<and>
    mset (map decoded (p_Extensions q)) = mset (map decoded (p_Extensions p)) \<longrightarrow>
      Paths_Hash E o1 p = Paths_Hash E o2 q) \<and>
   (map decoded (r_Codes s) = map decoded (r_Codes r) \<and> r_Default s = r_Default r \<and>
    mset (map decoded (r_Extensions s)) = mset (map decoded (r_Extensions r)) \<longrightarrow>
      Responses_Hash E o1 r = Responses_Hash E o2 s) \<and>
   ((\<forall>j\<in>set (producer (CheckForMergeNodes E (NodeAlias E root))). \<not> isl (fst (worker E j))) \<and>
    distinct (map (\<lambda>j. map_option Value (currentNode j))
                (producer (CheckForMergeNodes E (NodeAlias E root)))) \<longrightarrow>
      Paths_Hash E o1 (fst (Paths_Build E s1 p0 root))
        = Paths_Hash E o2 (fst (Paths_Build E s2 p0 root)))"
proof (intro conjI impI)
  assume h: "map decoded (p_PathItems q) = map decoded (p_PathItems p) \<and>
    mset (map decoded (p_Extensions q)) = mset (map decoded (p_Extensions p))"
  from h have x: "extension_lines E o2 (p_Extensions q) = extension_lines E o1 (p_Extensions p)"
    by (intro extension_lines_decoded) (rule conjunct2)
  from h have c: "child_lines E (p_PathItems q) = child_lines E (p_PathItems p)"
    by (intro child_lines_decoded) (rule conjunct1)
  show "Paths_Hash E o1 p = Paths_Hash E o2 q"
    by (simp only: Paths_Hash_def Let_def x c)
next
  assume h: "map decoded (r_Codes s) = map decoded (r_Codes r) \<and> r_Default s = r_Default r \<and>
    mset (map decoded (r_Extensions s)) = mset (map decoded (r_Extensions r))"
  from h have x: "extension_lines E o2 (r_Extensions s) = extension_lines E o1 (r_Extensions r)"
    by (intro extension_lines_decoded) blast
  from h have c: "child_lines E (r_Codes s) = child_lines E (r_Codes r)"
    by (intro child_lines_decoded) blast
  from h have d: "r_Default s = r_Default r" by blast
  show "Responses_Hash E o1 r = Responses_Hash E o2 s"
    by (simp only: Responses_Hash_def Let_def x c d)
next
  assume h: "(\<forall>j\<in>set (producer (CheckForMergeNodes E (NodeAlias E root))). \<not> isl (fst (worker E j))) \<and>
    distinct (map (\<lambda>j. map_option Value (currentNode j))
                (producer (CheckForMergeNodes E (NodeAlias E root))))"
  then show "Paths_Hash E o1 (fst (Paths_Build E s1 p0 root))
        = Paths_Hash E o2 (fst (Paths_Build E s2 p0 root))"
    by (intro Paths_Build_Hash_schedule) blast+
qed

theorem Hash_deterministic_witness:
  "Paths_Hash (sample_env False True) [1, 0] (sample_paths\<lparr>p_Extensions := sample_exts\<rparr>)
     = Paths_Hash (sample_env False True) [] (sample_paths\<lparr>p_Extensions := rev sample_exts\<rparr>) \<and>
   Responses_Hash (sample_env False True) [1, 0] (sample_responses\<lparr>r_Extensions := sample_exts\<rparr>)
     = Responses_Hash (sample_env False True) []
         (sample_responses\<lparr>r_Extensions := rev sample_exts\<rparr>) \<and>
   Paths_Hash (sample_env False True) [1, 0]
       (fst (Paths_Build (sample_env False True) [1] sample_paths doc_bad_child))
     = Paths_Hash (sample_env False True) []
         (fst (Paths_Build (sample_env False True) [] sample_paths doc_bad_child))"
proof -
  let ?E = "sample_env False True :: (node, string) env"
  let ?p = "sample_paths\<lparr>p_Extensions := sample_exts\<rparr>"
  let ?q = "sample_paths\<lparr>p_Extensions := rev sample_exts\<rparr>"
  let ?r = "sample_responses\<lparr>r_Extensions := sample_exts\<rparr>"
  let ?s = "sample_responses\<lparr>r_Extensions := rev sample_exts\<rparr>"
  have hp: "map decoded (p_PathItems ?q) = map decoded (p_PathItems ?p) \<and>
      mset (map decoded (p_Extensions ?q)) = mset (map decoded (p_Extensions ?p))"
    by simp
  have hr: "map decoded (r_Codes ?s) = map decoded (r_Codes ?r) \<and> r_Default ?s = r_Default ?r \<and>
      mset (map decoded (r_Extensions ?s)) = mset (map decoded (r_Extensions ?r))"
    by simp
  have hb: "(\<forall>j\<in>set (producer (CheckForMergeNodes ?E (NodeAlias ?E doc_bad_child))).
        \<not> isl (fst (worker ?E j))) \<and>
      distinct (map (\<lambda>j. map_option Value (currentNode j))
                  (producer (CheckForMergeNodes ?E (NodeAlias ?E doc_bad_child))))"
    by code_simp
  from Hash_deterministic [of ?q ?p ?E "[1, 0]" "[]" ?s ?r doc_bad_child "[1]" sample_paths "[]"]
    hp hr hb
  show ?thesis by blast
qed

end
